theory Spec2Isabelle
  imports Complex_Main
begin

section \<open>Numbers, errors and tables\<close>

text \<open>
  The program computes with JavaScript numbers. The model works in exact arithmetic:
  a finite number is a real, and the three non-finite values are kept apart, because
  the validation functions test for them (\<^verbatim>\<open>Number.isFinite\<close>) and compare them
  (\<^verbatim>\<open><=\<close>, \<^verbatim>\<open><\<close>, \<^verbatim>\<open>>\<close>). A read past the end of an array gives
  \<^verbatim>\<open>undefined\<close>, which behaves as NaN in a comparison.
\<close>

datatype num = Fin real | PosInf | NegInf | NaN

datatype error = TabularDataError | MethodNotSupportedError

fun isFinite :: "num \<Rightarrow> bool" where
  "isFinite (Fin r) = True"
| "isFinite PosInf = False"
| "isFinite NegInf = False"
| "isFinite NaN = False"

text \<open>\<^verbatim>\<open>a < b\<close> and \<^verbatim>\<open>a <= b\<close> on numbers: every comparison with NaN is false.\<close>

fun js_lt :: "num \<Rightarrow> num \<Rightarrow> bool" where
  "js_lt NaN b = False"
| "js_lt a NaN = False"
| "js_lt (Fin a) (Fin b) = (a < b)"
| "js_lt a NegInf = False"
| "js_lt NegInf b = True"
| "js_lt PosInf b = False"
| "js_lt a PosInf = True"

fun js_le :: "num \<Rightarrow> num \<Rightarrow> bool" where
  "js_le NaN b = False"
| "js_le a NaN = False"
| "js_le (Fin a) (Fin b) = (a \<le> b)"
| "js_le NegInf b = True"
| "js_le a NegInf = False"
| "js_le a PosInf = True"
| "js_le PosInf b = False"

text \<open>The real value of a finite number; it is applied to validated data only.\<close>

fun toReal :: "num \<Rightarrow> real" where
  "toReal (Fin r) = r"
| "toReal PosInf = 0"
| "toReal NegInf = 0"
| "toReal NaN = 0"

text \<open>\<^verbatim>\<open>arr[i]\<close> on a number array, where the result is only compared.\<close>

definition js_nth :: "num list \<Rightarrow> nat \<Rightarrow> num" where
  "js_nth arr i = (if i < length arr then arr ! i else NaN)"

text \<open>
  \<^verbatim>\<open>TabularFunction { x, f }\<close>. The fields are named \<open>tab_x\<close> and \<open>tab_f\<close> so that
  \<open>x\<close> and \<open>f\<close> stay free for the local arrays, as in the source.
\<close>

record TabularFunction =
  tab_x :: "num list"
  tab_f :: "num list"

record InterpolationResult =
  ir_X :: "num list"
  ir_F :: "real list"

record DerivativeResult =
  dr_X :: "num list"
  dr_Fd :: "real list"



record DifferentiationComparisonRow =
  dcr_X :: num
  interpolation5 :: "real option"
  approximation5 :: "real option"
  dcr_absDiff :: "real option"

record DifferentiationMethodsSummary =
  dms_rows :: "DifferentiationComparisonRow list"
  dms_meanAbsDiff :: "real option"
  dms_maxAbsDiff :: "real option"

section \<open>Validation\<close>

fun isStrictlyIncreasing :: "num list \<Rightarrow> bool" where
  "isStrictlyIncreasing [] = True"
| "isStrictlyIncreasing [a] = True"
| "isStrictlyIncreasing (a # b # rest) =
     (if js_le b a then False else isStrictlyIncreasing (b # rest))"

text \<open>
  \<^verbatim>\<open>validateTabular(table, { minPoints })\<close>; the caller passes 2 where the source
  leaves the default. The \<^verbatim>\<open>Array.isArray\<close> test is a fact of the types here.
\<close>

definition validateTabular :: "TabularFunction \<Rightarrow> nat \<Rightarrow> error + unit" where
  "validateTabular table minPoints =
     (let x = tab_x table; f = tab_f table in
      if length x \<noteq> length f then Inl TabularDataError
      else if length x < minPoints then Inl TabularDataError
      else if \<not> isStrictlyIncreasing x then Inl TabularDataError
      else if list_ex (\<lambda>i. \<not> isFinite (x ! i) \<or> \<not> isFinite (f ! i)) [0..<length x]
        then Inl TabularDataError
      else Inr ())"

definition validatePointsToEvaluate ::
  "TabularFunction \<Rightarrow> num list \<Rightarrow> bool \<Rightarrow> error + unit" where
  "validatePointsToEvaluate table X requireInRange =
     (if X = [] then Inl TabularDataError
      else if list_ex (\<lambda>v. \<not> isFinite v) X then Inl TabularDataError
      else if requireInRange then
        (let minX = js_nth (tab_x table) 0;
             maxX = js_nth (tab_x table) (length (tab_x table) - 1)
         in if list_ex (\<lambda>v. js_lt v minX \<or> js_lt maxX v) X then Inl TabularDataError
            else Inr ())
      else Inr ())"

definition validateMinPointsForMethod :: "TabularFunction \<Rightarrow> nat \<Rightarrow> error + unit" where
  "validateMinPointsForMethod table requiredPoints =
     (if length (tab_x table) < requiredPoints then Inl TabularDataError else Inr ())"

section \<open>Grid utilities\<close>

text \<open>
  The functions below run on validated arrays, so they take the real values.
  A \<^verbatim>\<open>for\<close> loop over a fixed index range is a \<open>fold\<close> over that range.
\<close>

definition findNearestIndex :: "real list \<Rightarrow> real \<Rightarrow> error + nat" where
  "findNearestIndex x X =
     (if length x = 0 then Inl TabularDataError
      else Inr (fst (fold
        (\<lambda>i (nearestIndex, minDist).
            let dist = \<bar>x ! i - X\<bar> in
            if dist < minDist then (i, dist) else (nearestIndex, minDist))
        [1..<length x] (0, \<bar>x ! 0 - X\<bar>))))"

text \<open>
  \<^verbatim>\<open>getApproximateStep(x, tolerance)\<close>. The spacings, their sum and the mean are exact
  reals here; the program rounds each of them to a double (and its sum can overflow),
  so the test against the tolerance is the program's only up to that rounding.
\<close>

definition getApproximateStep :: "real list \<Rightarrow> real \<Rightarrow> real option" where
  "getApproximateStep x tolerance =
     (if length x < 2 then None
      else
        (let steps = map (\<lambda>i. x ! i - x ! (i - 1)) [1..<length x];
             h = fold (\<lambda>v s. s + v) steps 0 / real (length steps)
         in if list_ex (\<lambda>step. \<bar>step - h\<bar> > tolerance) steps then None else Some h))"

text \<open>
  \<^verbatim>\<open>get5PointStencilIndices(table, X)\<close> reads only \<^verbatim>\<open>table.x\<close>. The start of the
  window may be negative before it is clamped, so the indices are integers.
\<close>

definition get5PointStencilIndices :: "real list \<Rightarrow> real \<Rightarrow> error + int list" where
  "get5PointStencilIndices x X =
     (if length x < 5 then Inl TabularDataError
      else case findNearestIndex x X of
        Inl e \<Rightarrow> Inl e
      | Inr nearest \<Rightarrow>
         (let start0 = int nearest - 2;
              start1 = (if start0 < 0 then 0 else start0);
              start2 = (if start1 + 4 \<ge> int (length x) then int (length x) - 5 else start1)
          in Inr (map (\<lambda>i. start2 + int i) [0..<5])))"

section \<open>Differentiation by finite differences\<close>

definition finiteDifference5AtIndex :: "real list \<Rightarrow> nat \<Rightarrow> real \<Rightarrow> error + real" where
  "finiteDifference5AtIndex f i h =
     (let n = length f in
      if n < 5 then Inl TabularDataError
      else if i = 0 then
        Inr ((-25 * f ! 0 + 48 * f ! 1 - 36 * f ! 2 + 16 * f ! 3 - 3 * f ! 4) / (12 * h))
      else if i = 1 then
        Inr ((-3 * f ! 0 - 10 * f ! 1 + 18 * f ! 2 - 6 * f ! 3 + f ! 4) / (12 * h))
      else if i = n - 2 then
        Inr ((3 * f ! (n - 1) + 10 * f ! (n - 2) - 18 * f ! (n - 3) + 6 * f ! (n - 4)
              - f ! (n - 5)) / (12 * h))
      else if i = n - 1 then
        Inr ((25 * f ! (n - 1) - 48 * f ! (n - 2) + 36 * f ! (n - 3) - 16 * f ! (n - 4)
              + 3 * f ! (n - 5)) / (12 * h))
      else Inr ((f ! (i - 2) - 8 * f ! (i - 1) + 8 * f ! (i + 1) - f ! (i + 2)) / (12 * h)))"

text \<open>
  The selection as the specification words it: the five formulas by index range, the
  central one tested third.
\<close>

definition finiteDifference5_spec :: "real list \<Rightarrow> nat \<Rightarrow> real \<Rightarrow> real" where
  "finiteDifference5_spec f i h =
     (let n = length f in
      if i = 0 then (-25 * f ! 0 + 48 * f ! 1 - 36 * f ! 2 + 16 * f ! 3 - 3 * f ! 4) / (12 * h)
      else if i = 1 then (-3 * f ! 0 - 10 * f ! 1 + 18 * f ! 2 - 6 * f ! 3 + f ! 4) / (12 * h)
      else if 2 \<le> i \<and> i + 3 \<le> n then
        (f ! (i - 2) - 8 * f ! (i - 1) + 8 * f ! (i + 1) - f ! (i + 2)) / (12 * h)
      else if i + 2 = n then
        (3 * f ! (n - 1) + 10 * f ! (n - 2) - 18 * f ! (n - 3) + 6 * f ! (n - 4)
          - f ! (n - 5)) / (12 * h)
      else (25 * f ! (n - 1) - 48 * f ! (n - 2) + 36 * f ! (n - 3) - 16 * f ! (n - 4)
          + 3 * f ! (n - 5)) / (12 * h))"

text \<open>
  The loop of \<^verbatim>\<open>differentiateByApproximation5\<close> over the points: the first point
  that is too far from its nearest node, or whose formula fails, ends the call.
\<close>

fun approximation5_points ::
  "real list \<Rightarrow> real list \<Rightarrow> real \<Rightarrow> real \<Rightarrow> real list \<Rightarrow> error + real list" where
  "approximation5_points x f h nodeTolerance [] = Inr []"
| "approximation5_points x f h nodeTolerance (Xk # rest) =
     (case findNearestIndex x Xk of
        Inl e \<Rightarrow> Inl e
      | Inr idx \<Rightarrow>
          (let distance = \<bar>Xk - x ! idx\<bar> in
           if distance > nodeTolerance then Inl TabularDataError
           else case finiteDifference5AtIndex f idx h of
             Inl e \<Rightarrow> Inl e
           | Inr dValue \<Rightarrow>
               (case approximation5_points x f h nodeTolerance rest of
                  Inl e \<Rightarrow> Inl e
                | Inr Fd \<Rightarrow> Inr (dValue # Fd))))"

text \<open>
  \<^verbatim>\<open>differentiateByApproximation5\<close>. The step \<open>h\<close> is a real here, so the test
  \<^verbatim>\<open>!Number.isFinite(h)\<close> is always false and only \<open>h = null\<close> and \<open>|h| = 0\<close>
  remain. The literals \<^verbatim>\<open>1e-6\<close> and \<^verbatim>\<open>1e-3\<close> are the exact fractions and the
  product \<open>|h| * 1e-3\<close> is exact, where the program has the nearest doubles and a
  rounded product: the comparison with the node tolerance is the program's only up to
  that rounding.
\<close>

definition differentiateByApproximation5 ::
  "TabularFunction \<Rightarrow> num list \<Rightarrow> error + DerivativeResult" where
  "differentiateByApproximation5 table X =
     (case validateTabular table 5 of
        Inl e \<Rightarrow> Inl e
      | Inr u \<Rightarrow>
     (case validateMinPointsForMethod table 5 of
        Inl e \<Rightarrow> Inl e
      | Inr u \<Rightarrow>
     (let x = map toReal (tab_x table); f = map toReal (tab_f table) in
      case getApproximateStep x (1 / 1000000) of
        None \<Rightarrow> Inl TabularDataError
      | Some h \<Rightarrow>
          if \<bar>h\<bar> = 0 then Inl TabularDataError
          else
     (case validatePointsToEvaluate table X True of
        Inl e \<Rightarrow> Inl e
      | Inr u \<Rightarrow>
          (let nodeTolerance = \<bar>h\<bar> * (1 / 1000) in
           case approximation5_points x f h nodeTolerance (map toReal X) of
             Inl e \<Rightarrow> Inl e
           | Inr Fd \<Rightarrow> Inr \<lparr>dr_X = X, dr_Fd = Fd\<rparr>)))))"

section \<open>Interpolation\<close>

text \<open>
  \<^verbatim>\<open>interpolateLagrangeAtPoint(x, f, Xk)\<close>: the outer loop adds \<open>f[i] * Li\<close>, the
  inner loop multiplies \<open>Li\<close> by one factor for every \<open>j\<close> other than \<open>i\<close>.
\<close>

definition interpolateLagrangeAtPoint :: "real list \<Rightarrow> real list \<Rightarrow> real \<Rightarrow> real" where
  "interpolateLagrangeAtPoint x f Xk =
     (let n = length x in
      fold (\<lambda>i val.
              val + f ! i *
                fold (\<lambda>j Li. if j = i then Li else Li * ((Xk - x ! j) / (x ! i - x ! j)))
                     [0..<n] 1)
           [0..<n] 0)"

definition interpolateLagrange ::
  "TabularFunction \<Rightarrow> num list \<Rightarrow> error + InterpolationResult" where
  "interpolateLagrange table X =
     (case validateTabular table 2 of
        Inl e \<Rightarrow> Inl e
      | Inr u \<Rightarrow>
     (case validatePointsToEvaluate table X False of
        Inl e \<Rightarrow> Inl e
      | Inr u \<Rightarrow>
          (let x = map toReal (tab_x table); f = map toReal (tab_f table) in
           Inr \<lparr>ir_X = X,
                ir_F = map (\<lambda>Xk. interpolateLagrangeAtPoint x f (toReal Xk)) X\<rparr>)))"

text \<open>
  \<^verbatim>\<open>buildNewtonCoefficients(x, f)\<close>: the divided differences, computed in place on a
  copy of \<open>f\<close>, for \<open>j = 1, ..., n - 1\<close> and, inside, \<open>i = n - 1\<close> down to \<open>j\<close>.
\<close>

definition buildNewtonCoefficients :: "real list \<Rightarrow> real list \<Rightarrow> real list" where
  "buildNewtonCoefficients x f =
     (let n = length x in
      fold (\<lambda>j coef.
              fold (\<lambda>i coef. coef[i := (coef ! i - coef ! (i - 1)) / (x ! i - x ! (i - j))])
                   (rev [j..<n]) coef)
           [1..<n] f)"

text \<open>
  \<^verbatim>\<open>evaluateNewtonAtPoint(x, coef, Xk)\<close>: nested multiplication from \<open>coef[n - 1]\<close>
  down, for \<open>i = n - 2\<close> down to \<open>0\<close>. It is called with at least two nodes.
\<close>

definition evaluateNewtonAtPoint :: "real list \<Rightarrow> real list \<Rightarrow> real \<Rightarrow> real" where
  "evaluateNewtonAtPoint x coef Xk =
     (let n = length x in
      fold (\<lambda>i result. result * (Xk - x ! i) + coef ! i) (rev [0..<n - 1]) (coef ! (n - 1)))"

definition interpolateNewton ::
  "TabularFunction \<Rightarrow> num list \<Rightarrow> error + InterpolationResult" where
  "interpolateNewton table X =
     (case validateTabular table 2 of
        Inl e \<Rightarrow> Inl e
      | Inr u \<Rightarrow>
     (case validatePointsToEvaluate table X False of
        Inl e \<Rightarrow> Inl e
      | Inr u \<Rightarrow>
          (let x = map toReal (tab_x table); f = map toReal (tab_f table);
               coef = buildNewtonCoefficients x f in
           Inr \<lparr>ir_X = X,
                ir_F = map (\<lambda>Xk. evaluateNewtonAtPoint x coef (toReal Xk)) X\<rparr>)))"




section \<open>Differentiation by interpolation on five nodes\<close>

definition computeLagrangeDerivativeAtPoint :: "real list \<Rightarrow> real list \<Rightarrow> real \<Rightarrow> real" where
  "computeLagrangeDerivativeAtPoint x f Xk =
     (let n = length x in
      fold (\<lambda>i derivative.
              derivative + f ! i *
                fold (\<lambda>m LiPrimeAtXk.
                        if m = i then LiPrimeAtXk
                        else LiPrimeAtXk +
                          fold (\<lambda>j term.
                                  if j = i \<or> j = m then term
                                  else term * ((Xk - x ! j) / (x ! i - x ! j)))
                               [0..<n] (1 / (x ! i - x ! m)))
                     [0..<n] 0)
           [0..<n] 0)"

text \<open>
  The loop of \<^verbatim>\<open>differentiateByInterpolation5\<close> over the points; a failing stencil
  selection ends the call.
\<close>

fun interpolation5_points :: "real list \<Rightarrow> real list \<Rightarrow> real list \<Rightarrow> error + real list" where
  "interpolation5_points x f [] = Inr []"
| "interpolation5_points x f (Xk # rest) =
     (case get5PointStencilIndices x Xk of
        Inl e \<Rightarrow> Inl e
      | Inr indices \<Rightarrow>
          (let xLocal = map (\<lambda>i. x ! nat i) indices;
               fLocal = map (\<lambda>i. f ! nat i) indices;
               dValue = computeLagrangeDerivativeAtPoint xLocal fLocal Xk
           in case interpolation5_points x f rest of
                Inl e \<Rightarrow> Inl e
              | Inr Fd \<Rightarrow> Inr (dValue # Fd)))"

definition differentiateByInterpolation5 ::
  "TabularFunction \<Rightarrow> num list \<Rightarrow> error + DerivativeResult" where
  "differentiateByInterpolation5 table X =
     (case validateTabular table 5 of
        Inl e \<Rightarrow> Inl e
      | Inr u \<Rightarrow>
     (case validateMinPointsForMethod table 5 of
        Inl e \<Rightarrow> Inl e
      | Inr u \<Rightarrow>
     (case validatePointsToEvaluate table X True of
        Inl e \<Rightarrow> Inl e
      | Inr u \<Rightarrow>
          (let x = map toReal (tab_x table); f = map toReal (tab_f table) in
           case interpolation5_points x f (map toReal X) of
             Inl e \<Rightarrow> Inl e
           | Inr Fd \<Rightarrow> Inr \<lparr>dr_X = X, dr_Fd = Fd\<rparr>))))"

section \<open>Comparison of the differentiation methods\<close>

text \<open>
  \<^verbatim>\<open>try { r = m(table, X) } catch { r = null }\<close>: any error becomes the absence of a
  result.
\<close>

definition catch_null :: "error + 'a \<Rightarrow> 'a option" where
  "catch_null r = (case r of Inl e \<Rightarrow> None | Inr v \<Rightarrow> Some v)"

text \<open>
  \<^verbatim>\<open>result && result.Fd[i] != null ? result.Fd[i] : null\<close>: a missing result and a
  read past the end of \<open>Fd\<close> both give null.
\<close>

definition valueAt :: "DerivativeResult option \<Rightarrow> nat \<Rightarrow> real option" where
  "valueAt result i =
     (case result of
        None \<Rightarrow> None
      | Some r \<Rightarrow> if i < length (dr_Fd r) then Some (dr_Fd r ! i) else None)"

text \<open>
  The body of the loop of \<^verbatim>\<open>buildDifferentiationMethodsSummary\<close> for the index
  \<open>i\<close>: the difference is computed, added and counted only when both values are there.
\<close>

definition differentiationSummaryStep ::
  "num list \<Rightarrow> DerivativeResult option \<Rightarrow> DerivativeResult option \<Rightarrow> nat
     \<Rightarrow> DifferentiationComparisonRow list \<times> real \<times> real \<times> nat
     \<Rightarrow> DifferentiationComparisonRow list \<times> real \<times> real \<times> nat" where
  "differentiationSummaryStep X interpolationResult approximationResult i =
     (\<lambda>(rows, sumAbsDiff, maxAbsDiff, countForStats).
        let xValue = X ! i;
            vInterp = valueAt interpolationResult i;
            vApprox = valueAt approximationResult i
        in case (vInterp, vApprox) of
             (Some a, Some b) \<Rightarrow>
               (let absDiff = \<bar>a - b\<bar> in
                (rows @ [\<lparr>dcr_X = xValue, interpolation5 = vInterp,
                           approximation5 = vApprox, dcr_absDiff = Some absDiff\<rparr>],
                 sumAbsDiff + absDiff,
                 (if absDiff > maxAbsDiff then absDiff else maxAbsDiff),
                 countForStats + 1))
           | _ \<Rightarrow>
               (rows @ [\<lparr>dcr_X = xValue, interpolation5 = vInterp,
                          approximation5 = vApprox, dcr_absDiff = None\<rparr>],
                sumAbsDiff, maxAbsDiff, countForStats))"

text \<open>The body of \<^verbatim>\<open>buildDifferentiationMethodsSummary\<close> after the two attempts.\<close>

definition summaryOfResults ::
  "DerivativeResult option \<Rightarrow> DerivativeResult option \<Rightarrow> num list
     \<Rightarrow> DifferentiationMethodsSummary" where
  "summaryOfResults interpolationResult approximationResult X =
     (let (rows, sumAbsDiff, maxAbsDiff, countForStats) =
            fold (differentiationSummaryStep X interpolationResult approximationResult)
                 [0..<length X] ([], 0, 0, 0);
          meanAbsDiff = (if countForStats > 0 then Some (sumAbsDiff / real countForStats)
                         else None);
          hasStats = (countForStats > 0)
      in \<lparr>dms_rows = rows,
          dms_meanAbsDiff = (if hasStats then meanAbsDiff else None),
          dms_maxAbsDiff = (if hasStats then Some maxAbsDiff else None)\<rparr>)"

definition buildDifferentiationMethodsSummary ::
  "TabularFunction \<Rightarrow> num list \<Rightarrow> DifferentiationMethodsSummary" where
  "buildDifferentiationMethodsSummary table X =
     (let interpolationResult = catch_null (differentiateByInterpolation5 table X);
          approximationResult = catch_null (differentiateByApproximation5 table X)
      in summaryOfResults interpolationResult approximationResult X)"

section \<open>Notions used to state and prove the properties\<close>

text \<open>
  These are not functions of the program. The first group is the mathematics behind the
  interpolation code: the Lagrange polynomial on a finite set of node indices, its
  leading coefficient, the divided difference of width \<open>w\<close> starting at node \<open>a\<close>, the
  derivative of the Lagrange polynomial by the product rule, and the functions that are
  polynomials of degree at most \<open>d\<close>. The second group words the conditions of the
  specification on the grid: the mean spacing of consecutive nodes, a grid whose
  spacings all lie within a tolerance of the mean, and a point that lies within a
  tolerance of some node.
\<close>

definition lagrangeOn :: "(nat \<Rightarrow> real) \<Rightarrow> (nat \<Rightarrow> real) \<Rightarrow> nat set \<Rightarrow> real \<Rightarrow> real" where
  "lagrangeOn x f S t = (\<Sum>i\<in>S. f i * (\<Prod>j\<in>S - {i}. (t - x j) / (x i - x j)))"

definition leadOn :: "(nat \<Rightarrow> real) \<Rightarrow> (nat \<Rightarrow> real) \<Rightarrow> nat set \<Rightarrow> real" where
  "leadOn x f S = (\<Sum>i\<in>S. f i / (\<Prod>j\<in>S - {i}. (x i - x j)))"

fun divdiff :: "(nat \<Rightarrow> real) \<Rightarrow> (nat \<Rightarrow> real) \<Rightarrow> nat \<Rightarrow> nat \<Rightarrow> real" where
  "divdiff x f 0 a = f a"
| "divdiff x f (Suc w) a =
     (divdiff x f w (Suc a) - divdiff x f w a) / (x (a + Suc w) - x a)"

definition lagrangeDerivOn ::
  "(nat \<Rightarrow> real) \<Rightarrow> (nat \<Rightarrow> real) \<Rightarrow> nat set \<Rightarrow> real \<Rightarrow> real" where
  "lagrangeDerivOn x f S t =
     (\<Sum>i\<in>S. f i * (\<Sum>m\<in>S - {i}.
         1 / (x i - x m) * (\<Prod>j\<in>S - {i} - {m}. (t - x j) / (x i - x j))))"

definition polyfn :: "nat \<Rightarrow> (real \<Rightarrow> real) \<Rightarrow> bool" where
  "polyfn d g \<longleftrightarrow> (\<exists>c. \<forall>t. g t = (\<Sum>i\<le>d. c i * t ^ i))"

definition meanSpacing :: "real list \<Rightarrow> real" where
  "meanSpacing x =
     sum_list (map (\<lambda>i. x ! i - x ! (i - 1)) [1..<length x]) / real (length x - 1)"

definition gridIsUniform :: "real list \<Rightarrow> real \<Rightarrow> bool" where
  "gridIsUniform x tolerance =
     list_all (\<lambda>i. \<bar>x ! i - x ! (i - 1) - meanSpacing x\<bar> \<le> tolerance) [1..<length x]"

definition nearSomeNode :: "real list \<Rightarrow> real \<Rightarrow> real \<Rightarrow> bool" where
  "nearSomeNode x Xk tolerance = list_ex (\<lambda>i. \<bar>Xk - x ! i\<bar> \<le> tolerance) [0..<length x]"

section \<open>Lagrange polynomials and divided differences\<close>

lemma lagrange_step:
  fixes x :: "nat \<Rightarrow> real"
  assumes fin: "finite S" and b: "b \<notin> S" and inj: "inj_on x (insert b S)"
  shows "lagrangeOn x f (insert b S) t - lagrangeOn x f S t
           = leadOn x f (insert b S) * (\<Prod>j\<in>S. (t - x j))"
proof -
  have nz: "x i - x j \<noteq> 0" if "i \<in> insert b S" "j \<in> insert b S" "i \<noteq> j" for i j
    using inj that by (auto simp: inj_on_def)
  have Sb: "insert b S - {b} = S" using b by auto
  have Si: "insert b S - {i} = insert b (S - {i})" if "i \<in> S" for i
    using that b by auto
  have tm: "f i * (\<Prod>j\<in>insert b S - {i}. (t - x j) / (x i - x j))
              - f i * (\<Prod>j\<in>S - {i}. (t - x j) / (x i - x j))
            = f i / (\<Prod>j\<in>insert b S - {i}. (x i - x j)) * (\<Prod>j\<in>S. (t - x j))"
    if i: "i \<in> S" for i
  proof -
    have ib: "x i - x b \<noteq> 0" using nz i b by auto
    have pnz: "(\<Prod>j\<in>S - {i}. (x i - x j)) \<noteq> 0"
      using fin nz i by auto
    have full: "(\<Prod>j\<in>S. (t - x j)) = (t - x i) * (\<Prod>j\<in>S - {i}. (t - x j))"
      using fin i by (simp add: prod.remove)
    have bn: "b \<notin> S - {i}" using b by auto
    show ?thesis
      using ib pnz bn fin
      by (simp add: Si [OF i] full prod_dividef field_simps)
  qed
  have "lagrangeOn x f (insert b S) t - lagrangeOn x f S t
      = f b * (\<Prod>j\<in>S. (t - x j) / (x b - x j))
        + (\<Sum>i\<in>S. f i * (\<Prod>j\<in>insert b S - {i}. (t - x j) / (x i - x j))
              - f i * (\<Prod>j\<in>S - {i}. (t - x j) / (x i - x j)))"
    using fin b by (simp add: lagrangeOn_def Sb sum_subtractf)
  also have "\<dots> = f b / (\<Prod>j\<in>S. (x b - x j)) * (\<Prod>j\<in>S. (t - x j))
        + (\<Sum>i\<in>S. f i / (\<Prod>j\<in>insert b S - {i}. (x i - x j)) * (\<Prod>j\<in>S. (t - x j)))"
    using tm by (simp add: prod_dividef)
  also have "\<dots> = leadOn x f (insert b S) * (\<Prod>j\<in>S. (t - x j))"
    using fin b by (simp add: leadOn_def Sb sum_distrib_right distrib_right)
  finally show ?thesis .
qed

lemma lead_term_algebra:
  fixes A B M v :: real
  assumes "A \<noteq> 0" "B \<noteq> 0" "M \<noteq> 0" "A - B \<noteq> 0"
  shows "v / (A * (B * M)) = (v / (B * M) - v / (A * M)) / (A - B)"
proof -
  have "(v / (B * M) - v / (A * M)) = v * (A - B) / (A * (B * M))"
    using assms by (simp add: field_simps)
  then show ?thesis using assms by simp
qed

lemma lead_ends_algebra:
  fixes D Pa Pb va vb s :: real
  assumes "D \<noteq> 0" "Pa \<noteq> 0" "Pb \<noteq> 0"
  shows "va / ((- D) * Pa) + vb / (D * Pb) + s / D = (vb / Pb - va / Pa + s) / D"
  using assms by (simp add: field_simps)

lemma lead_recurrence:
  fixes x :: "nat \<Rightarrow> real"
  assumes fin: "finite S" and a: "a \<notin> S" and b: "b \<notin> S" and ab: "a \<noteq> b"
    and inj: "inj_on x (insert a (insert b S))"
  shows "leadOn x f (insert a (insert b S))
           = (leadOn x f (insert b S) - leadOn x f (insert a S)) / (x b - x a)"
proof -
  have nz: "x i - x j \<noteq> 0"
    if "i \<in> insert a (insert b S)" "j \<in> insert a (insert b S)" "i \<noteq> j" for i j
    using inj that by (auto simp: inj_on_def)
  have ba: "x b - x a \<noteq> 0" and ab': "x a - x b \<noteq> 0" using nz ab by auto
  have Sa: "insert a (insert b S) - {a} = insert b S" "insert a S - {a} = S"
    using a ab by auto
  have Sb: "insert a (insert b S) - {b} = insert a S" "insert b S - {b} = S"
    using b ab by auto
  have pa: "(\<Prod>j\<in>S. (x a - x j)) \<noteq> 0" using fin nz a by auto
  have pb: "(\<Prod>j\<in>S. (x b - x j)) \<noteq> 0" using fin nz b by auto
  have tm: "f i / (\<Prod>j\<in>insert a (insert b S) - {i}. (x i - x j))
      = (f i / (\<Prod>j\<in>insert b S - {i}. (x i - x j))
          - f i / (\<Prod>j\<in>insert a S - {i}. (x i - x j))) / (x b - x a)"
    if i: "i \<in> S" for i
  proof -
    have e1: "insert a (insert b S) - {i} = insert a (insert b (S - {i}))"
      and e2: "insert b S - {i} = insert b (S - {i})"
      and e3: "insert a S - {i} = insert a (S - {i})"
      using i a b by auto
    have ia: "x i - x a \<noteq> 0" and ib: "x i - x b \<noteq> 0" using nz i a b by auto
    have pnz: "(\<Prod>j\<in>S - {i}. (x i - x j)) \<noteq> 0"
      using fin nz i by auto
    have na: "a \<notin> insert b (S - {i})" "a \<notin> S - {i}" and nb: "b \<notin> S - {i}"
      using a b ab by auto
    have d: "(x i - x a) - (x i - x b) \<noteq> 0" using ba by simp
    have "f i / ((x i - x a) * ((x i - x b) * (\<Prod>j\<in>S - {i}. (x i - x j))))
        = (f i / ((x i - x b) * (\<Prod>j\<in>S - {i}. (x i - x j)))
            - f i / ((x i - x a) * (\<Prod>j\<in>S - {i}. (x i - x j))))
          / ((x i - x a) - (x i - x b))"
      by (rule lead_term_algebra [OF ia ib pnz d])
    then show ?thesis
      using na nb fin by (simp add: e1 e2 e3)
  qed
  have "leadOn x f (insert a (insert b S))
      = f a / ((x a - x b) * (\<Prod>j\<in>S. (x a - x j)))
        + f b / ((x b - x a) * (\<Prod>j\<in>S. (x b - x j)))
        + (\<Sum>i\<in>S. f i / (\<Prod>j\<in>insert a (insert b S) - {i}. (x i - x j)))"
    using fin a b ab by (simp add: leadOn_def Sa Sb)
  also have "\<dots> = f a / ((- (x b - x a)) * (\<Prod>j\<in>S. (x a - x j)))
        + f b / ((x b - x a) * (\<Prod>j\<in>S. (x b - x j)))
        + (\<Sum>i\<in>S. f i / (\<Prod>j\<in>insert b S - {i}. (x i - x j))
                    - f i / (\<Prod>j\<in>insert a S - {i}. (x i - x j))) / (x b - x a)"
    using tm by (simp add: sum_divide_distrib)
  also have "\<dots> = (f b / (\<Prod>j\<in>S. (x b - x j)) - f a / (\<Prod>j\<in>S. (x a - x j))
        + (\<Sum>i\<in>S. f i / (\<Prod>j\<in>insert b S - {i}. (x i - x j))
                    - f i / (\<Prod>j\<in>insert a S - {i}. (x i - x j)))) / (x b - x a)"
    by (rule lead_ends_algebra [OF ba pa pb])
  also have "\<dots> = (leadOn x f (insert b S) - leadOn x f (insert a S)) / (x b - x a)"
    using fin a b by (simp add: leadOn_def Sa Sb sum_subtractf)
  finally show ?thesis .
qed

lemma divdiff_leadOn:
  fixes x :: "nat \<Rightarrow> real"
  shows "inj_on x {a..a + w} \<Longrightarrow> divdiff x f w a = leadOn x f {a..a + w}"
proof (induction w arbitrary: a)
  case 0
  then show ?case by (simp add: leadOn_def)
next
  case (Suc w)
  let ?S = "{Suc a..a + w}"
  let ?b = "a + Suc w"
  have inj1: "inj_on x {Suc a..Suc a + w}"
    by (rule inj_on_subset [OF Suc.prems]) auto
  have inj2: "inj_on x {a..a + w}"
    by (rule inj_on_subset [OF Suc.prems]) auto
  have s1: "insert ?b ?S = {Suc a..Suc a + w}" by auto
  have s2: "insert a ?S = {a..a + w}" by auto
  have s3: "insert a (insert ?b ?S) = {a..a + Suc w}" by auto
  have s4: "insert a {Suc a..Suc a + w} = {a..a + Suc w}" by auto
  have "leadOn x f (insert a (insert ?b ?S))
           = (leadOn x f (insert ?b ?S) - leadOn x f (insert a ?S)) / (x ?b - x a)"
  proof (rule lead_recurrence)
    show "inj_on x (insert a (insert ?b ?S))"
      using Suc.prems by (simp only: s3)
  qed auto
  then have "leadOn x f {a..a + Suc w}
           = (leadOn x f {Suc a..Suc a + w} - leadOn x f {a..a + w}) / (x ?b - x a)"
    by (simp only: s1 s2 s4)
  then show ?case
    using Suc.IH [OF inj1] Suc.IH [OF inj2] by simp
qed

lemma newton_form_lagrange:
  fixes x :: "nat \<Rightarrow> real"
  shows "inj_on x {..n} \<Longrightarrow>
    (\<Sum>k\<le>n. leadOn x f {..k} * (\<Prod>m<k. (t - x m))) = lagrangeOn x f {..n} t"
proof (induction n)
  case 0
  then show ?case by (simp add: leadOn_def lagrangeOn_def)
next
  case (Suc n)
  have inj: "inj_on x {..n}"
    by (rule inj_on_subset [OF Suc.prems]) auto
  have "lagrangeOn x f (insert (Suc n) {..n}) t - lagrangeOn x f {..n} t
           = leadOn x f (insert (Suc n) {..n}) * (\<Prod>j\<in>{..n}. (t - x j))"
    by (rule lagrange_step) (use Suc.prems in \<open>auto simp: atMost_Suc\<close>)
  then have "lagrangeOn x f {..Suc n} t
      = lagrangeOn x f {..n} t + leadOn x f {..Suc n} * (\<Prod>j<Suc n. (t - x j))"
    by (simp add: atMost_Suc lessThan_Suc_atMost)
  then show ?case
    using Suc.IH [OF inj] by simp
qed

lemma fold_add_upt:
  fixes g :: "nat \<Rightarrow> real"
  shows "fold (\<lambda>i v. v + g i) [0..<n] s = s + (\<Sum>i<n. g i)"
  by (induction n) simp_all

lemma fold_mult_skip_upt:
  fixes g :: "nat \<Rightarrow> real"
  shows "fold (\<lambda>j L. if Q j then L else L * g j) [0..<n] s
           = s * (\<Prod>j\<in>{j. j < n \<and> \<not> Q j}. g j)"
proof (induction n)
  case 0
  then show ?case by simp
next
  case (Suc n)
  have e: "{j. j < Suc n \<and> \<not> Q j}
      = (if Q n then {j. j < n \<and> \<not> Q j} else insert n {j. j < n \<and> \<not> Q j})"
    by (auto simp: less_Suc_eq)
  show ?case
    using Suc by (simp add: e)
qed

lemma fold_add_skip_upt:
  fixes g :: "nat \<Rightarrow> real"
  shows "fold (\<lambda>j L. if Q j then L else L + g j) [0..<n] s
           = s + (\<Sum>j\<in>{j. j < n \<and> \<not> Q j}. g j)"
proof (induction n)
  case 0
  then show ?case by simp
next
  case (Suc n)
  have e: "{j. j < Suc n \<and> \<not> Q j}
      = (if Q n then {j. j < n \<and> \<not> Q j} else insert n {j. j < n \<and> \<not> Q j})"
    by (auto simp: less_Suc_eq)
  show ?case
    using Suc by (simp add: e)
qed

lemma horner_fold:
  fixes x c :: "nat \<Rightarrow> real"
  shows "fold (\<lambda>i r. r * (t - x i) + c i) (rev [0..<m]) r0
           = r0 * (\<Prod>i<m. (t - x i)) + (\<Sum>k<m. c k * (\<Prod>i<k. (t - x i)))"
  by (induction m arbitrary: r0) (simp_all add: algebra_simps)

section \<open>The loops of the interpolation code\<close>

lemma interpolateLagrangeAtPoint_lagrangeOn:
  "interpolateLagrangeAtPoint x f t = lagrangeOn ((!) x) ((!) f) {..<length x} t"
proof -
  have e: "{j. j < length x \<and> j \<noteq> i} = {..<length x} - {i}" for i
    by auto
  show ?thesis
    by (simp add: interpolateLagrangeAtPoint_def lagrangeOn_def fold_mult_skip_upt
        fold_add_upt e Let_def)
qed

lemma newton_inner_pass:
  fixes c :: "real list"
  assumes "n \<le> length c" "1 \<le> j"
  shows "fold (\<lambda>i coef. coef[i := (coef ! i - coef ! (i - 1)) / (x ! i - x ! (i - j))])
              (rev [j..<n]) c
         = map (\<lambda>i. if j \<le> i \<and> i < n
                     then (c ! i - c ! (i - 1)) / (x ! i - x ! (i - j)) else c ! i)
               [0..<length c]"
  using assms
proof (induction n arbitrary: c)
  case 0
  then show ?case by (simp add: map_nth)
next
  case (Suc n)
  show ?case
  proof (cases "j \<le> n")
    case True
    let ?v = "(c ! n - c ! (n - 1)) / (x ! n - x ! (n - j))"
    let ?c' = "c[n := ?v]"
    have len: "n \<le> length ?c'" using Suc.prems by simp
    have "fold (\<lambda>i coef. coef[i := (coef ! i - coef ! (i - 1)) / (x ! i - x ! (i - j))])
              (rev [j..<Suc n]) c
        = fold (\<lambda>i coef. coef[i := (coef ! i - coef ! (i - 1)) / (x ! i - x ! (i - j))])
              (rev [j..<n]) ?c'"
      using True by simp
    also have "\<dots> = map (\<lambda>i. if j \<le> i \<and> i < n
                     then (?c' ! i - ?c' ! (i - 1)) / (x ! i - x ! (i - j)) else ?c' ! i)
               [0..<length ?c']"
      by (rule Suc.IH [OF len \<open>1 \<le> j\<close>])
    also have "\<dots> = map (\<lambda>i. if j \<le> i \<and> i < Suc n
                     then (c ! i - c ! (i - 1)) / (x ! i - x ! (i - j)) else c ! i)
               [0..<length c]"
    proof (rule nth_equalityI)
      show "length (map (\<lambda>i. if j \<le> i \<and> i < n
                     then (?c' ! i - ?c' ! (i - 1)) / (x ! i - x ! (i - j)) else ?c' ! i)
               [0..<length ?c'])
         = length (map (\<lambda>i. if j \<le> i \<and> i < Suc n
                     then (c ! i - c ! (i - 1)) / (x ! i - x ! (i - j)) else c ! i)
               [0..<length c])"
        by simp
    next
      fix i
      assume "i < length (map (\<lambda>i. if j \<le> i \<and> i < n
                     then (?c' ! i - ?c' ! (i - 1)) / (x ! i - x ! (i - j)) else ?c' ! i)
               [0..<length ?c'])"
      then have i: "i < length c" by simp
      consider "i < n" | "i = n" | "n < i" by linarith
      then show "map (\<lambda>i. if j \<le> i \<and> i < n
                     then (?c' ! i - ?c' ! (i - 1)) / (x ! i - x ! (i - j)) else ?c' ! i)
               [0..<length ?c'] ! i
         = map (\<lambda>i. if j \<le> i \<and> i < Suc n
                     then (c ! i - c ! (i - 1)) / (x ! i - x ! (i - j)) else c ! i)
               [0..<length c] ! i"
      proof cases
        case 1
        then have "i - 1 \<noteq> n" by simp
        with 1 i show ?thesis by simp
      next
        case 2
        with i True show ?thesis by simp
      next
        case 3
        with i show ?thesis by simp
      qed
    qed
    finally show ?thesis .
  next
    case False
    then have e: "[j..<Suc n] = []" by simp
    have m: "(\<lambda>i. if j \<le> i \<and> i < Suc n
                     then (c ! i - c ! (i - 1)) / (x ! i - x ! (i - j)) else c ! i)
           = (\<lambda>i. c ! i)"
      using False by (intro ext) auto
    show ?thesis
      unfolding e m by (simp add: map_nth)
  qed
qed

lemma newton_passes:
  fixes f :: "real list"
  assumes "length f = length x"
  shows "fold (\<lambda>j coef.
              fold (\<lambda>i coef. coef[i := (coef ! i - coef ! (i - 1)) / (x ! i - x ! (i - j))])
                   (rev [j..<length x]) coef)
           [1..<Suc P] f
         = map (\<lambda>i. divdiff ((!) x) ((!) f) (min i P) (i - min i P)) [0..<length x]"
proof (induction P)
  case 0
  have "map (\<lambda>i. divdiff ((!) x) ((!) f) (min i 0) (i - min i 0)) [0..<length x]
      = map ((!) f) [0..<length f]"
    using assms by simp
  also have "\<dots> = f"
    by (rule map_nth)
  finally show ?case by simp
next
  case (Suc P)
  let ?prev = "map (\<lambda>i. divdiff ((!) x) ((!) f) (min i P) (i - min i P)) [0..<length x]"
  have "fold (\<lambda>j coef.
              fold (\<lambda>i coef. coef[i := (coef ! i - coef ! (i - 1)) / (x ! i - x ! (i - j))])
                   (rev [j..<length x]) coef)
           [1..<Suc (Suc P)] f
      = fold (\<lambda>i coef. coef[i := (coef ! i - coef ! (i - 1)) / (x ! i - x ! (i - Suc P))])
                   (rev [Suc P..<length x]) ?prev"
    using Suc.IH by simp
  also have "\<dots> = map (\<lambda>i. if Suc P \<le> i \<and> i < length x
                     then (?prev ! i - ?prev ! (i - 1)) / (x ! i - x ! (i - Suc P))
                     else ?prev ! i)
               [0..<length ?prev]"
    by (rule newton_inner_pass) simp_all
  also have "\<dots> = map (\<lambda>i. divdiff ((!) x) ((!) f) (min i (Suc P)) (i - min i (Suc P)))
               [0..<length x]"
  proof (rule nth_equalityI)
    show "length (map (\<lambda>i. if Suc P \<le> i \<and> i < length x
                     then (?prev ! i - ?prev ! (i - 1)) / (x ! i - x ! (i - Suc P))
                     else ?prev ! i)
               [0..<length ?prev])
        = length (map (\<lambda>i. divdiff ((!) x) ((!) f) (min i (Suc P)) (i - min i (Suc P)))
               [0..<length x])"
      by simp
  next
    fix i
    assume "i < length (map (\<lambda>i. if Suc P \<le> i \<and> i < length x
                     then (?prev ! i - ?prev ! (i - 1)) / (x ! i - x ! (i - Suc P))
                     else ?prev ! i)
               [0..<length ?prev])"
    then have i: "i < length x" by simp
    show "map (\<lambda>i. if Suc P \<le> i \<and> i < length x
                     then (?prev ! i - ?prev ! (i - 1)) / (x ! i - x ! (i - Suc P))
                     else ?prev ! i)
               [0..<length ?prev] ! i
        = map (\<lambda>i. divdiff ((!) x) ((!) f) (min i (Suc P)) (i - min i (Suc P)))
               [0..<length x] ! i"
    proof (cases "Suc P \<le> i")
      case True
      then have m: "min i P = P" "min (i - 1) P = P" "min i (Suc P) = Suc P"
        by simp_all
      have a: "i - P = Suc (i - Suc P)" "i - 1 - P = i - Suc P"
        "i - Suc P + Suc P = i"
        using True by simp_all
      have i1: "i - 1 < length x" using i by simp
      show ?thesis
        using i i1 True by (simp add: m a)
    next
      case False
      then have m: "min i P = i" "min i (Suc P) = i" by simp_all
      show ?thesis
        using i False by (simp add: m)
    qed
  qed
  finally show ?case .
qed

lemma buildNewtonCoefficients_divdiff:
  assumes "length f = length x"
  shows "buildNewtonCoefficients x f = map (\<lambda>i. divdiff ((!) x) ((!) f) i 0) [0..<length x]"
proof (cases "length x")
  case 0
  then show ?thesis using assms by (simp add: buildNewtonCoefficients_def)
next
  case (Suc P)
  have "buildNewtonCoefficients x f
      = map (\<lambda>i. divdiff ((!) x) ((!) f) (min i P) (i - min i P)) [0..<length x]"
    using newton_passes [OF assms, of P] Suc by (simp add: buildNewtonCoefficients_def)
  also have "\<dots> = map (\<lambda>i. divdiff ((!) x) ((!) f) i 0) [0..<length x]"
    using Suc by (intro map_cong) (auto simp: min_def)
  finally show ?thesis .
qed

lemma evaluateNewtonAtPoint_sum:
  assumes "0 < length x"
  shows "evaluateNewtonAtPoint x coef t
           = (\<Sum>k<length x. coef ! k * (\<Prod>i<k. (t - x ! i)))"
proof -
  obtain P where P: "length x = Suc P"
    using assms by (cases "length x") auto
  show ?thesis
    by (simp add: evaluateNewtonAtPoint_def P horner_fold)
qed

lemma newton_eq_lagrange_at_point:
  assumes d: "distinct x" and len: "length f = length x" and ne: "0 < length x"
  shows "evaluateNewtonAtPoint x (buildNewtonCoefficients x f) t
           = interpolateLagrangeAtPoint x f t"
proof -
  obtain P where P: "length x = Suc P"
    using ne by (cases "length x") auto
  have inj: "inj_on ((!) x) {..P}"
    using d P by (intro inj_on_nth) auto
  have dd: "divdiff ((!) x) ((!) f) k 0 = leadOn ((!) x) ((!) f) {..k}" if "k \<le> P" for k
  proof -
    have "inj_on ((!) x) {0..0 + k}"
      by (rule inj_on_subset [OF inj]) (use that in auto)
    from divdiff_leadOn [OF this] show ?thesis
      by (simp add: atLeast0AtMost)
  qed
  have "evaluateNewtonAtPoint x (buildNewtonCoefficients x f) t
      = (\<Sum>k<length x. map (\<lambda>i. divdiff ((!) x) ((!) f) i 0) [0..<length x] ! k
            * (\<Prod>i<k. (t - x ! i)))"
    by (simp only: evaluateNewtonAtPoint_sum [OF ne] buildNewtonCoefficients_divdiff [OF len])
  also have "\<dots> = (\<Sum>k<length x. divdiff ((!) x) ((!) f) k 0 * (\<Prod>i<k. (t - x ! i)))"
    by (rule sum.cong) simp_all
  also have "\<dots> = (\<Sum>k\<le>P. divdiff ((!) x) ((!) f) k 0 * (\<Prod>i<k. (t - x ! i)))"
    by (simp only: P lessThan_Suc_atMost)
  also have "\<dots> = (\<Sum>k\<le>P. leadOn ((!) x) ((!) f) {..k} * (\<Prod>i<k. (t - x ! i)))"
    by (rule sum.cong) (simp_all add: dd)
  also have "\<dots> = lagrangeOn ((!) x) ((!) f) {..P} t"
    by (rule newton_form_lagrange [OF inj])
  also have "\<dots> = interpolateLagrangeAtPoint x f t"
    by (simp add: interpolateLagrangeAtPoint_lagrangeOn P lessThan_Suc_atMost)
  finally show ?thesis .
qed

section \<open>Polynomials are reproduced\<close>

lemma polyfnI: "(\<And>t. g t = (\<Sum>i\<le>d. c i * t ^ i)) \<Longrightarrow> polyfn d g"
  unfolding polyfn_def by (intro exI [of _ c] allI)

lemma polyfn_const: "polyfn d (\<lambda>t. a)"
proof -
  have "a = (\<Sum>i\<le>d. (if i = 0 then a else 0) * t ^ i)" for t :: real
    by (simp add: if_distrib [of "\<lambda>v. v * _"] sum.delta' cong: if_cong)
  then show ?thesis
    by (rule polyfnI)
qed

lemma polyfn_add: "polyfn d g \<Longrightarrow> polyfn d h \<Longrightarrow> polyfn d (\<lambda>t. g t + h t)"
proof -
  assume "polyfn d g" "polyfn d h"
  then obtain c e where c: "\<And>t. g t = (\<Sum>i\<le>d. c i * t ^ i)"
    and e: "\<And>t. h t = (\<Sum>i\<le>d. e i * t ^ i)"
    unfolding polyfn_def by blast
  have "g t + h t = (\<Sum>i\<le>d. (c i + e i) * t ^ i)" for t
    by (simp add: c e sum.distrib distrib_right)
  then show ?thesis
    by (rule polyfnI)
qed

lemma polyfn_cmult: "polyfn d g \<Longrightarrow> polyfn d (\<lambda>t. a * g t)"
proof -
  assume "polyfn d g"
  then obtain c where c: "\<And>t. g t = (\<Sum>i\<le>d. c i * t ^ i)"
    unfolding polyfn_def by blast
  have "a * g t = (\<Sum>i\<le>d. (a * c i) * t ^ i)" for t
    by (simp add: c sum_distrib_left mult.assoc)
  then show ?thesis
    by (rule polyfnI)
qed

lemma polyfn_Suc: "polyfn d g \<Longrightarrow> polyfn (Suc d) g"
proof -
  assume "polyfn d g"
  then obtain c where c: "\<And>t. g t = (\<Sum>i\<le>d. c i * t ^ i)"
    unfolding polyfn_def by blast
  have "g t = (\<Sum>i\<le>Suc d. (if i \<le> d then c i else 0) * t ^ i)" for t
    by (simp add: c)
  then show ?thesis
    by (rule polyfnI)
qed

lemma polyfn_times_t: "polyfn d g \<Longrightarrow> polyfn (Suc d) (\<lambda>t. t * g t)"
proof -
  assume "polyfn d g"
  then obtain c where c: "\<And>t. g t = (\<Sum>i\<le>d. c i * t ^ i)"
    unfolding polyfn_def by blast
  have "t * g t = (\<Sum>i\<le>Suc d. (case i of 0 \<Rightarrow> 0 | Suc k \<Rightarrow> c k) * t ^ i)" for t
  proof -
    have "(\<Sum>i\<le>Suc d. (case i of 0 \<Rightarrow> 0 | Suc k \<Rightarrow> c k) * t ^ i)
        = (\<Sum>i\<le>d. c i * t ^ Suc i)"
      by (simp add: sum.atMost_Suc_shift del: sum.atMost_Suc power_Suc)
    also have "\<dots> = t * g t"
      by (simp add: c sum_distrib_left mult_ac)
    finally show ?thesis by simp
  qed
  then show ?thesis
    by (rule polyfnI)
qed

lemma polyfn_linear_factor:
  assumes "polyfn d g"
  shows "polyfn (Suc d) (\<lambda>t. (t - a) / b * g t)"
proof -
  have 1: "polyfn (Suc d) (\<lambda>t. t * g t)"
    by (rule polyfn_times_t [OF assms])
  have 2: "polyfn (Suc d) (\<lambda>t. (- a) * g t)"
    by (rule polyfn_cmult [OF polyfn_Suc [OF assms]])
  have "polyfn (Suc d) (\<lambda>t. (1 / b) * (t * g t + (- a) * g t))"
    by (rule polyfn_cmult [OF polyfn_add [OF 1 2]])
  moreover have "(\<lambda>t. (1 / b) * (t * g t + (- a) * g t)) = (\<lambda>t. (t - a) / b * g t)"
    by (rule ext) (simp add: algebra_simps diff_divide_distrib)
  ultimately show ?thesis by simp
qed

lemma polyfn_prod_linear:
  fixes x b :: "nat \<Rightarrow> real"
  assumes "finite A"
  shows "polyfn (card A) (\<lambda>t. \<Prod>j\<in>A. (t - x j) / b j)"
  using assms
proof (induction A rule: finite_induct)
  case empty
  show ?case using polyfn_const [of 0 1] by simp
next
  case (insert a A)
  have "polyfn (Suc (card A)) (\<lambda>t. (t - x a) / b a * (\<Prod>j\<in>A. (t - x j) / b j))"
    by (rule polyfn_linear_factor [OF insert.IH])
  then show ?case
    using insert.hyps by simp
qed

lemma polyfn_sum:
  assumes "finite S" "\<And>i. i \<in> S \<Longrightarrow> polyfn d (g i)"
  shows "polyfn d (\<lambda>t. \<Sum>i\<in>S. g i t)"
  using assms
proof (induction S rule: finite_induct)
  case empty
  show ?case using polyfn_const [of d 0] by simp
next
  case (insert a A)
  have "polyfn d (\<lambda>t. g a t + (\<Sum>i\<in>A. g i t))"
    by (rule polyfn_add) (use insert in auto)
  then show ?case
    using insert.hyps by simp
qed

lemma polyfn_lagrangeOn:
  fixes x f :: "nat \<Rightarrow> real"
  assumes "finite S"
  shows "polyfn (card S - 1) (lagrangeOn x f S)"
proof -
  have "polyfn (card S - 1) (\<lambda>t. f i * (\<Prod>j\<in>S - {i}. (t - x j) / (x i - x j)))"
    if "i \<in> S" for i
  proof -
    have "polyfn (card (S - {i})) (\<lambda>t. \<Prod>j\<in>S - {i}. (t - x j) / (x i - x j))"
      by (rule polyfn_prod_linear) (use assms in simp)
    then show ?thesis
      using that assms by (intro polyfn_cmult) simp
  qed
  then have "polyfn (card S - 1)
      (\<lambda>t. \<Sum>i\<in>S. f i * (\<Prod>j\<in>S - {i}. (t - x j) / (x i - x j)))"
    by (rule polyfn_sum [OF assms])
  then show ?thesis
    by (simp add: lagrangeOn_def [abs_def])
qed

lemma polyfn_vanishes:
  assumes g: "polyfn d g" and fin: "finite R" and card: "d < card R"
    and zero: "\<And>r. r \<in> R \<Longrightarrow> g r = 0"
  shows "g t = 0"
proof -
  obtain c where c: "\<And>t. g t = (\<Sum>i\<le>d. c i * t ^ i)"
    using g unfolding polyfn_def by blast
  have "\<forall>k\<le>d. c k = 0"
  proof (rule ccontr)
    assume "\<not> (\<forall>k\<le>d. c k = 0)"
    then obtain k where k: "c k \<noteq> 0" "k \<le> d" by blast
    from polyfun_rootbound [of c k d, OF k]
    have f: "finite {z. (\<Sum>i\<le>d. c i * z ^ i) = 0}"
      and b: "card {z. (\<Sum>i\<le>d. c i * z ^ i) = 0} \<le> d"
      by auto
    have "R \<subseteq> {z. (\<Sum>i\<le>d. c i * z ^ i) = 0}"
      using zero c by auto
    then have "card R \<le> card {z. (\<Sum>i\<le>d. c i * z ^ i) = 0}"
      by (rule card_mono [OF f])
    with b card show False by simp
  qed
  then show ?thesis
    by (simp add: c)
qed

lemma lagrangeOn_at_node:
  fixes x f :: "nat \<Rightarrow> real"
  assumes fin: "finite S" and k: "k \<in> S" and inj: "inj_on x S"
  shows "lagrangeOn x f S (x k) = f k"
proof -
  have other: "f i * (\<Prod>j\<in>S - {i}. (x k - x j) / (x i - x j)) = 0"
    if "i \<in> S - {k}" for i
  proof -
    have "k \<in> S - {i}" using that k by auto
    moreover have "(x k - x k) / (x i - x k) = 0" by simp
    ultimately have "(\<Prod>j\<in>S - {i}. (x k - x j) / (x i - x j)) = 0"
      using fin by (intro prod_zero) auto
    then show ?thesis by simp
  qed
  have self: "(\<Prod>j\<in>S - {k}. (x k - x j) / (x k - x j)) = 1"
  proof (rule prod.neutral, rule ballI)
    fix j assume "j \<in> S - {k}"
    then have "x k \<noteq> x j" using inj k by (auto simp: inj_on_def)
    then show "(x k - x j) / (x k - x j) = 1" by simp
  qed
  have "lagrangeOn x f S (x k)
      = f k * (\<Prod>j\<in>S - {k}. (x k - x j) / (x k - x j))
        + (\<Sum>i\<in>S - {k}. f i * (\<Prod>j\<in>S - {i}. (x k - x j) / (x i - x j)))"
    unfolding lagrangeOn_def using fin k by (simp add: sum.remove)
  also have "\<dots> = f k * 1 + 0"
    by (simp only: self sum.neutral [of "S - {k}", OF ballI [OF other]])
  finally show ?thesis by simp
qed

lemma lagrangeOn_reproduces:
  fixes x :: "nat \<Rightarrow> real"
  assumes fin: "finite S" and ne: "S \<noteq> {}" and inj: "inj_on x S"
    and p: "polyfn (card S - 1) p"
  shows "lagrangeOn x (\<lambda>i. p (x i)) S t = p t"
proof -
  let ?g = "\<lambda>t. lagrangeOn x (\<lambda>i. p (x i)) S t + (- 1) * p t"
  have "polyfn (card S - 1) ?g"
    by (intro polyfn_add polyfn_cmult polyfn_lagrangeOn fin p)
  moreover have "finite (x ` S)" using fin by simp
  moreover have "card S - 1 < card (x ` S)"
    using fin ne inj by (simp add: card_image card_gt_0_iff)
  moreover have "?g r = 0" if "r \<in> x ` S" for r
    using that lagrangeOn_at_node [OF fin _ inj, of _ "\<lambda>i. p (x i)"] by auto
  ultimately have "?g t = 0"
    by (rule polyfn_vanishes)
  then show ?thesis by simp
qed

lemma lagrangeOn_cong:
  "(\<And>i. i \<in> S \<Longrightarrow> f i = g i) \<Longrightarrow> lagrangeOn x f S t = lagrangeOn x g S t"
  unfolding lagrangeOn_def by (rule sum.cong) simp_all

lemma lagrangeDerivOn_cong:
  "(\<And>i. i \<in> S \<Longrightarrow> f i = g i) \<Longrightarrow> lagrangeDerivOn x f S t = lagrangeDerivOn x g S t"
  unfolding lagrangeDerivOn_def by (rule sum.cong) simp_all

lemma polyfn_coeffs:
  assumes "0 < n"
  shows "polyfn (n - 1) (\<lambda>t. \<Sum>k<n. c k * t ^ k)"
proof -
  obtain P where P: "n = Suc P" using assms by (cases n) auto
  show ?thesis
    unfolding P by (rule polyfnI [where c = c]) (simp add: lessThan_Suc_atMost)
qed

lemma lagrange_reproduces_polynomial:
  assumes d: "distinct x" and ne: "0 < length x"
  shows "interpolateLagrangeAtPoint x (map (\<lambda>s. \<Sum>k<length x. c k * s ^ k) x) t
           = (\<Sum>k<length x. c k * t ^ k)"
proof -
  let ?p = "\<lambda>s. \<Sum>k<length x. c k * s ^ k"
  let ?S = "{..<length x}"
  have inj: "inj_on ((!) x) ?S"
    using d by (intro inj_on_nth) auto
  have "interpolateLagrangeAtPoint x (map ?p x) t = lagrangeOn ((!) x) ((!) (map ?p x)) ?S t"
    by (simp add: interpolateLagrangeAtPoint_lagrangeOn)
  also have "\<dots> = lagrangeOn ((!) x) (\<lambda>i. ?p (x ! i)) ?S t"
    by (rule lagrangeOn_cong) simp
  also have "\<dots> = ?p t"
  proof (rule lagrangeOn_reproduces [OF _ _ inj])
    show "polyfn (card ?S - 1) ?p"
      using polyfn_coeffs [OF ne, of c] by simp
  qed (use ne in auto)
  finally show ?thesis .
qed

lemma computeLagrangeDerivativeAtPoint_lagrangeDerivOn:
  "computeLagrangeDerivativeAtPoint x f t
     = lagrangeDerivOn ((!) x) ((!) f) {..<length x} t"
proof -
  have e1: "{j. j < length x \<and> j \<noteq> i} = {..<length x} - {i}" for i
    by auto
  have e2: "{j. j < length x \<and> j \<noteq> i \<and> j \<noteq> m} = {..<length x} - {i} - {m}" for i m
    by auto
  show ?thesis
    by (simp add: computeLagrangeDerivativeAtPoint_def lagrangeDerivOn_def Let_def
        fold_mult_skip_upt fold_add_skip_upt fold_add_upt e1 e2)
qed

lemma lagrangeOn_has_derivative:
  fixes x f :: "nat \<Rightarrow> real"
  shows "(lagrangeOn x f S has_field_derivative lagrangeDerivOn x f S t) (at t)"
proof -
  have factor: "((\<lambda>u. (u - x j) / (x i - x j)) has_field_derivative 1 / (x i - x j)) (at t)"
    for i j
    by (rule DERIV_cdivide) (auto intro!: derivative_eq_intros)
  have basis: "((\<lambda>u. \<Prod>j\<in>S - {i}. (u - x j) / (x i - x j)) has_field_derivative
        (\<Sum>m\<in>S - {i}. 1 / (x i - x m) * (\<Prod>j\<in>S - {i} - {m}. (t - x j) / (x i - x j))))
        (at t)" for i
    by (rule has_field_derivative_prod) (rule factor)
  have "((\<lambda>u. \<Sum>i\<in>S. f i * (\<Prod>j\<in>S - {i}. (u - x j) / (x i - x j)))
        has_field_derivative
        (\<Sum>i\<in>S. f i * (\<Sum>m\<in>S - {i}.
           1 / (x i - x m) * (\<Prod>j\<in>S - {i} - {m}. (t - x j) / (x i - x j))))) (at t)"
    by (intro DERIV_sum DERIV_cmult basis)
  then show ?thesis
    by (simp add: lagrangeOn_def [abs_def] lagrangeDerivOn_def)
qed

lemma polynomial_has_derivative:
  fixes c :: "nat \<Rightarrow> real"
  shows "((\<lambda>s. \<Sum>k<n. c k * s ^ k) has_field_derivative
            (\<Sum>k<n. c k * (real k * t ^ (k - 1)))) (at t)"
  by (auto intro!: derivative_eq_intros simp: mult_ac)

lemma lagrange_derivative_exact:
  assumes d: "distinct x" and ne: "0 < length x"
  shows "computeLagrangeDerivativeAtPoint x (map (\<lambda>s. \<Sum>k<length x. c k * s ^ k) x) t
           = (\<Sum>k<length x. c k * (real k * t ^ (k - 1)))"
proof -
  let ?p = "\<lambda>s. \<Sum>k<length x. c k * s ^ k"
  let ?S = "{..<length x}"
  have inj: "inj_on ((!) x) ?S"
    using d by (intro inj_on_nth) auto
  have pf: "polyfn (card ?S - 1) ?p"
    using polyfn_coeffs [OF ne, of c] by simp
  have "lagrangeOn ((!) x) (\<lambda>i. ?p (x ! i)) ?S s = ?p s" for s
    by (rule lagrangeOn_reproduces [OF _ _ inj pf]) (use ne in auto)
  then have "lagrangeOn ((!) x) (\<lambda>i. ?p (x ! i)) ?S = ?p"
    by (intro ext)
  then have "(?p has_field_derivative lagrangeDerivOn ((!) x) (\<lambda>i. ?p (x ! i)) ?S t) (at t)"
    using lagrangeOn_has_derivative [of "(!) x" "\<lambda>i. ?p (x ! i)" ?S t] by simp
  then have "lagrangeDerivOn ((!) x) (\<lambda>i. ?p (x ! i)) ?S t
      = (\<Sum>k<length x. c k * (real k * t ^ (k - 1)))"
    by (rule DERIV_unique) (rule polynomial_has_derivative)
  moreover have "computeLagrangeDerivativeAtPoint x (map ?p x) t
      = lagrangeDerivOn ((!) x) (\<lambda>i. ?p (x ! i)) ?S t"
    unfolding computeLagrangeDerivativeAtPoint_lagrangeDerivOn
    by (rule lagrangeDerivOn_cong) simp
  ultimately show ?thesis by simp
qed

section \<open>What validation establishes\<close>

lemma isFinite_iff: "isFinite v \<longleftrightarrow> (\<exists>r. v = Fin r)"
  by (cases v) simp_all

lemma isStrictlyIncreasing_Fin:
  "isStrictlyIncreasing (map Fin xs) \<longleftrightarrow> sorted_wrt (<) xs"
proof (induction xs rule: induct_list012)
  case (3 a b rest)
  have "sorted_wrt (<) (a # b # rest) = (a < b \<and> sorted_wrt (<) (b # rest))"
    by (rule sorted_wrt2) (rule transp_on_less)
  with 3 show ?case by auto
qed simp_all

lemma finite_list_Fin: "list_all isFinite xs \<Longrightarrow> xs = map Fin (map toReal xs)"
  by (induction xs) (auto simp: isFinite_iff)

lemma list_all_isFinite_Fin: "list_all isFinite (map Fin xs)"
  by (induction xs) simp_all

lemma validateTabular_Inr_iff:
  "validateTabular table m = Inr u \<longleftrightarrow>
     length (tab_x table) = length (tab_f table) \<and> m \<le> length (tab_x table)
     \<and> isStrictlyIncreasing (tab_x table)
     \<and> list_all isFinite (tab_x table) \<and> list_all isFinite (tab_f table)"
proof -
  have "list_ex (\<lambda>i. \<not> isFinite (tab_x table ! i) \<or> \<not> isFinite (tab_f table ! i))
          [0..<length (tab_x table)]
      \<longleftrightarrow> \<not> (list_all isFinite (tab_x table) \<and> list_all isFinite (tab_f table))"
    if "length (tab_x table) = length (tab_f table)"
    using that by (auto simp: list_ex_iff list_all_length)
  then show ?thesis
    by (auto simp: validateTabular_def Let_def)
qed

lemma validateTabular_Inl: "validateTabular table m = Inl e \<Longrightarrow> e = TabularDataError"
  by (auto simp: validateTabular_def Let_def split: if_splits)

lemma validateTabular_sorted:
  assumes "validateTabular table m = Inr u"
  shows "sorted_wrt (<) (map toReal (tab_x table))"
    and "length (map toReal (tab_f table)) = length (map toReal (tab_x table))"
    and "m \<le> length (map toReal (tab_x table))"
proof -
  from assms have v: "length (tab_x table) = length (tab_f table)" "m \<le> length (tab_x table)"
    "isStrictlyIncreasing (tab_x table)" "list_all isFinite (tab_x table)"
    by (simp_all add: validateTabular_Inr_iff)
  from finite_list_Fin [OF v(4)] v(3)
  have "isStrictlyIncreasing (map Fin (map toReal (tab_x table)))" by simp
  then show "sorted_wrt (<) (map toReal (tab_x table))"
    by (simp only: isStrictlyIncreasing_Fin)
  show "length (map toReal (tab_f table)) = length (map toReal (tab_x table))"
    using v(1) by simp
  show "m \<le> length (map toReal (tab_x table))"
    using v(2) by simp
qed

lemma validatePointsToEvaluate_Inl:
  "validatePointsToEvaluate table X b = Inl e \<Longrightarrow> e = TabularDataError"
  by (auto simp: validatePointsToEvaluate_def Let_def split: if_splits)

lemma validatePointsToEvaluate_free_iff:
  "validatePointsToEvaluate table X False = Inr u \<longleftrightarrow> X \<noteq> [] \<and> list_all isFinite X"
  by (auto simp: validatePointsToEvaluate_def list_ex_iff list_all_iff)

lemma validatePointsToEvaluate_range_iff:
  "validatePointsToEvaluate table X True = Inr u \<longleftrightarrow>
     X \<noteq> [] \<and> list_all isFinite X
     \<and> (\<forall>v\<in>set X. \<not> js_lt v (js_nth (tab_x table) 0)
           \<and> \<not> js_lt (js_nth (tab_x table) (length (tab_x table) - 1)) v)"
  by (auto simp: validatePointsToEvaluate_def list_ex_iff list_all_iff Let_def)

section \<open>Newton and Lagrange interpolation agree\<close>

lemma interpolateNewton_eq_interpolateLagrange:
  "interpolateNewton table X = interpolateLagrange table X"
proof (cases "validateTabular table 2")
  case (Inl e)
  then show ?thesis
    by (simp add: interpolateNewton_def interpolateLagrange_def)
next
  case (Inr u)
  note s = validateTabular_sorted [OF Inr]
  have d: "distinct (map toReal (tab_x table))"
    using s(1) by (simp add: strict_sorted_iff)
  have ne: "0 < length (map toReal (tab_x table))"
    using s(3) by linarith
  have "evaluateNewtonAtPoint (map toReal (tab_x table))
          (buildNewtonCoefficients (map toReal (tab_x table)) (map toReal (tab_f table))) t
      = interpolateLagrangeAtPoint (map toReal (tab_x table)) (map toReal (tab_f table)) t"
    for t
    by (rule newton_eq_lagrange_at_point [OF d s(2) ne])
  then show ?thesis
    by (simp add: interpolateNewton_def interpolateLagrange_def Let_def Inr
        split: sum.splits)
qed

text \<open>
  Claim C1. Newton interpolation (the divided-difference coefficients of
  \<open>buildNewtonCoefficients\<close>, evaluated by \<open>evaluateNewtonAtPoint\<close>) and Lagrange
  interpolation are the same function: \<open>interpolateNewton\<close> and \<open>interpolateLagrange\<close>
  return the same result on every table and every list of points (the same error on
  invalid input), and on strictly increasing nodes with as many values the two
  evaluations agree at every point.
\<close>

theorem newton_equals_lagrange:
  "interpolateNewton table X = interpolateLagrange table X
   \<and> (sorted_wrt (<) x \<and> length f = length x \<and> 0 < length x \<longrightarrow>
        evaluateNewtonAtPoint x (buildNewtonCoefficients x f) Xk
          = interpolateLagrangeAtPoint x f Xk)"
proof (intro conjI impI)
  show "interpolateNewton table X = interpolateLagrange table X"
    by (rule interpolateNewton_eq_interpolateLagrange)
next
  assume a: "sorted_wrt (<) x \<and> length f = length x \<and> 0 < length x"
  then have "distinct x" by (simp add: strict_sorted_iff)
  with a show "evaluateNewtonAtPoint x (buildNewtonCoefficients x f) Xk
          = interpolateLagrangeAtPoint x f Xk"
    by (intro newton_eq_lagrange_at_point) simp_all
qed

theorem newton_equals_lagrange_witness:
  "sorted_wrt (<) [-1, 0, 2 :: real] \<and> length [2, 3, 11 :: real] = length [-1, 0, 2 :: real]
   \<and> 0 < length [-1, 0, 2 :: real]
   \<and> evaluateNewtonAtPoint [-1, 0, 2] (buildNewtonCoefficients [-1, 0, 2] [2, 3, 11]) (1 / 2)
       = interpolateLagrangeAtPoint [-1, 0, 2] [2, 3, 11] (1 / 2)
   \<and> interpolateLagrangeAtPoint [-1, 0, 2] [2, 3, 11] (1 / 2) = 17 / 4
   \<and> interpolateNewton \<lparr>tab_x = [Fin (-1), Fin 0, Fin 2], tab_f = [Fin 2, Fin 3, Fin 11]\<rparr>
        [Fin (1 / 2)]
      = Inr \<lparr>ir_X = [Fin (1 / 2)], ir_F = [17 / 4]\<rparr>"
proof -
  have h: "sorted_wrt (<) [-1, 0, 2 :: real] \<and> length [2, 3, 11 :: real] = length [-1, 0, 2 :: real]
   \<and> 0 < length [-1, 0, 2 :: real]"
    by simp
  have v: "interpolateLagrangeAtPoint [-1, 0, 2] [2, 3, 11] (1 / 2) = 17 / 4"
    by (simp add: interpolateLagrangeAtPoint_def upt_rec)
  have l: "interpolateLagrange \<lparr>tab_x = [Fin (-1), Fin 0, Fin 2], tab_f = [Fin 2, Fin 3, Fin 11]\<rparr>
        [Fin (1 / 2)]
      = Inr \<lparr>ir_X = [Fin (1 / 2)], ir_F = [17 / 4]\<rparr>"
    by (simp add: interpolateLagrange_def validateTabular_def validatePointsToEvaluate_def
        upt_rec v)
  from newton_equals_lagrange
    [of "\<lparr>tab_x = [Fin (-1), Fin 0, Fin 2], tab_f = [Fin 2, Fin 3, Fin 11]\<rparr>"
        "[Fin (1 / 2)]" "[-1, 0, 2]" "[2, 3, 11]" "1 / 2"]
  show ?thesis
    using h v l by simp
qed

text \<open>
  Claim C2. For a polynomial \<open>p\<close> of degree at most \<open>n - 1\<close>, given by its coefficients
  \<open>c 0, ..., c (n - 1)\<close>, and \<open>n \<ge> 2\<close> strictly increasing nodes with \<open>f[i] = p(x[i])\<close>,
  \<open>interpolateLagrangeAtPoint\<close> and the Newton evaluation both return exactly \<open>p(Xk)\<close>
  at every point \<open>Xk\<close>, and so agree with each other.
\<close>

theorem interpolation_reproduces_polynomial:
  assumes "sorted_wrt (<) x" and "2 \<le> length x"
    and "f = map (\<lambda>s. \<Sum>k<length x. c k * s ^ k) x"
  shows "interpolateLagrangeAtPoint x f Xk = (\<Sum>k<length x. c k * Xk ^ k)
    \<and> evaluateNewtonAtPoint x (buildNewtonCoefficients x f) Xk = (\<Sum>k<length x. c k * Xk ^ k)
    \<and> interpolateLagrangeAtPoint x f Xk
        = evaluateNewtonAtPoint x (buildNewtonCoefficients x f) Xk"
proof -
  have d: "distinct x" using assms(1) by (simp add: strict_sorted_iff)
  have ne: "0 < length x" using assms(2) by linarith
  have len: "length f = length x" using assms(3) by simp
  have L: "interpolateLagrangeAtPoint x f Xk = (\<Sum>k<length x. c k * Xk ^ k)"
    unfolding assms(3) by (rule lagrange_reproduces_polynomial [OF d ne])
  have N: "evaluateNewtonAtPoint x (buildNewtonCoefficients x f) Xk
      = interpolateLagrangeAtPoint x f Xk"
    by (rule newton_eq_lagrange_at_point [OF d len ne])
  show ?thesis
    using L N by simp
qed

theorem interpolation_reproduces_polynomial_witness:
  "sorted_wrt (<) [-1, 0, 2 :: real] \<and> 2 \<le> length [-1, 0, 2 :: real]
   \<and> [2, 3, 11] = map (\<lambda>s. \<Sum>k<length [-1, 0, 2 :: real]. [3, 2, 1] ! k * s ^ k) [-1, 0, 2 :: real]
   \<and> interpolateLagrangeAtPoint [-1, 0, 2] [2, 3, 11] (1 / 2) = 17 / 4
   \<and> evaluateNewtonAtPoint [-1, 0, 2] (buildNewtonCoefficients [-1, 0, 2] [2, 3, 11]) (1 / 2)
       = 17 / 4"
proof -
  have h1: "sorted_wrt (<) [-1, 0, 2 :: real]" by simp
  have h2: "2 \<le> length [-1, 0, 2 :: real]" by simp
  have h3: "[2, 3, 11] = map (\<lambda>s. \<Sum>k<length [-1, 0, 2 :: real]. [3, 2, 1] ! k * s ^ k) [-1, 0, 2 :: real]"
    by (simp add: lessThan_Suc power2_eq_square)
  have v: "(\<Sum>k<length [-1, 0, 2 :: real]. [3, 2, 1] ! k * (1 / 2) ^ k) = (17 / 4 :: real)"
    by (simp add: lessThan_Suc power2_eq_square)
  note r = interpolation_reproduces_polynomial [OF h1 h2 h3, of "1 / 2", unfolded v]
  show ?thesis
    by (intro conjI h1 h2 h3 r [THEN conjunct1] r [THEN conjunct2, THEN conjunct1])
qed

section \<open>Stencil selection\<close>

lemma findNearestIndex_bound:
  "findNearestIndex x X = Inr k \<Longrightarrow> k < length x"
proof -
  have inv: "fst (fold
        (\<lambda>i (nearestIndex, minDist).
            let dist = \<bar>x ! i - X\<bar> in
            if dist < minDist then (i, dist) else (nearestIndex, minDist))
        is st) < n"
    if "fst st < n" "\<forall>i\<in>set is. i < n" for "is" st n
    using that
    by (induction "is" arbitrary: st) (auto simp: Let_def split: prod.splits)
  assume "findNearestIndex x X = Inr k"
  then have ne: "length x \<noteq> 0" and k: "k = fst (fold
        (\<lambda>i (nearestIndex, minDist).
            let dist = \<bar>x ! i - X\<bar> in
            if dist < minDist then (i, dist) else (nearestIndex, minDist))
        [1..<length x] (0, \<bar>x ! 0 - X\<bar>))"
    by (auto simp: findNearestIndex_def split: if_splits)
  show ?thesis
    unfolding k using ne by (intro inv) auto
qed

lemma findNearestIndex_total:
  "x \<noteq> [] \<Longrightarrow> \<exists>k. findNearestIndex x X = Inr k"
  by (simp add: findNearestIndex_def)

section \<open>The five finite-difference formulas\<close>

text \<open>
  Claim C4. For values \<open>f\<close> of length \<open>n \<ge> 5\<close>, an index \<open>i < n\<close> and any step \<open>h\<close>,
  \<open>finiteDifference5AtIndex\<close> returns the formula that the specification assigns to the
  range of \<open>i\<close>: forward at \<open>0\<close>, shifted forward at \<open>1\<close>, central for
  \<open>2 \<le> i \<le> n - 3\<close>, shifted backward at \<open>n - 2\<close>, backward at \<open>n - 1\<close>. Exactly one of
  the five range tests holds for \<open>i\<close>, so the order of the tests does not matter: the
  source tests the central range last, the specification third.
\<close>

theorem finiteDifference5AtIndex_by_range:
  "5 \<le> length f \<and> i < length f \<longrightarrow>
     finiteDifference5AtIndex f i h = Inr (finiteDifference5_spec f i h)
   \<and> length (filter (\<lambda>b. b)
         [i = 0, i = 1, 2 \<le> i \<and> i + 3 \<le> length f, i + 2 = length f, i + 1 = length f]) = 1
   \<and> (i = 0 \<longrightarrow> finiteDifference5AtIndex f i h =
         Inr ((-25 * f ! 0 + 48 * f ! 1 - 36 * f ! 2 + 16 * f ! 3 - 3 * f ! 4) / (12 * h)))
   \<and> (i = 1 \<longrightarrow> finiteDifference5AtIndex f i h =
         Inr ((-3 * f ! 0 - 10 * f ! 1 + 18 * f ! 2 - 6 * f ! 3 + f ! 4) / (12 * h)))
   \<and> (2 \<le> i \<and> i + 3 \<le> length f \<longrightarrow> finiteDifference5AtIndex f i h =
         Inr ((f ! (i - 2) - 8 * f ! (i - 1) + 8 * f ! (i + 1) - f ! (i + 2)) / (12 * h)))
   \<and> (i + 2 = length f \<longrightarrow> finiteDifference5AtIndex f i h =
         Inr ((3 * f ! (length f - 1) + 10 * f ! (length f - 2) - 18 * f ! (length f - 3)
               + 6 * f ! (length f - 4) - f ! (length f - 5)) / (12 * h)))
   \<and> (i + 1 = length f \<longrightarrow> finiteDifference5AtIndex f i h =
         Inr ((25 * f ! (length f - 1) - 48 * f ! (length f - 2) + 36 * f ! (length f - 3)
               - 16 * f ! (length f - 4) + 3 * f ! (length f - 5)) / (12 * h)))"
proof (intro impI)
  assume a: "5 \<le> length f \<and> i < length f"
  then have n: "\<not> length f < 5" by simp
  consider "i = 0" | "i = 1" | "2 \<le> i \<and> i + 3 \<le> length f" | "i + 2 = length f"
    | "i + 1 = length f"
    using a by linarith
  then show "finiteDifference5AtIndex f i h = Inr (finiteDifference5_spec f i h)
   \<and> length (filter (\<lambda>b. b)
         [i = 0, i = 1, 2 \<le> i \<and> i + 3 \<le> length f, i + 2 = length f, i + 1 = length f]) = 1
   \<and> (i = 0 \<longrightarrow> finiteDifference5AtIndex f i h =
         Inr ((-25 * f ! 0 + 48 * f ! 1 - 36 * f ! 2 + 16 * f ! 3 - 3 * f ! 4) / (12 * h)))
   \<and> (i = 1 \<longrightarrow> finiteDifference5AtIndex f i h =
         Inr ((-3 * f ! 0 - 10 * f ! 1 + 18 * f ! 2 - 6 * f ! 3 + f ! 4) / (12 * h)))
   \<and> (2 \<le> i \<and> i + 3 \<le> length f \<longrightarrow> finiteDifference5AtIndex f i h =
         Inr ((f ! (i - 2) - 8 * f ! (i - 1) + 8 * f ! (i + 1) - f ! (i + 2)) / (12 * h)))
   \<and> (i + 2 = length f \<longrightarrow> finiteDifference5AtIndex f i h =
         Inr ((3 * f ! (length f - 1) + 10 * f ! (length f - 2) - 18 * f ! (length f - 3)
               + 6 * f ! (length f - 4) - f ! (length f - 5)) / (12 * h)))
   \<and> (i + 1 = length f \<longrightarrow> finiteDifference5AtIndex f i h =
         Inr ((25 * f ! (length f - 1) - 48 * f ! (length f - 2) + 36 * f ! (length f - 3)
               - 16 * f ! (length f - 4) + 3 * f ! (length f - 5)) / (12 * h)))"
  proof cases
    case 1
    with a n show ?thesis
      by (simp add: finiteDifference5AtIndex_def finiteDifference5_spec_def Let_def)
  next
    case 2
    with a n show ?thesis
      by (simp add: finiteDifference5AtIndex_def finiteDifference5_spec_def Let_def)
  next
    case 3
    then have "i \<noteq> 0" "i \<noteq> 1" "i \<noteq> length f - 2" "i \<noteq> length f - 1"
      "i + 2 \<noteq> length f" "i + 1 \<noteq> length f"
      by linarith+
    with 3 n show ?thesis
      by (simp add: finiteDifference5AtIndex_def finiteDifference5_spec_def Let_def)
  next
    case 4
    then have "i \<noteq> 0" "i \<noteq> 1" "i = length f - 2" "\<not> i + 3 \<le> length f"
      "i + 1 \<noteq> length f"
      using a by simp_all
    with 4 n show ?thesis
      by (simp add: finiteDifference5AtIndex_def finiteDifference5_spec_def Let_def)
  next
    case 5
    then have "i \<noteq> 0" "i \<noteq> 1" "i \<noteq> length f - 2" "i = length f - 1"
      "\<not> i + 3 \<le> length f" "i + 2 \<noteq> length f"
      using a by simp_all
    with 5 n show ?thesis
      by (simp add: finiteDifference5AtIndex_def finiteDifference5_spec_def Let_def)
  qed
qed

theorem finiteDifference5AtIndex_by_range_witness:
  "5 \<le> length [1, 2, 4, 8, 16, 32 :: real] \<and> 2 < length [1, 2, 4, 8, 16, 32 :: real]
   \<and> finiteDifference5AtIndex [1, 2, 4, 8, 16, 32] 2 1 = Inr (11 / 4)
   \<and> finiteDifference5AtIndex [1, 2, 4, 8, 16, 32] 0 1 = Inr (7 / 12)
   \<and> finiteDifference5AtIndex [1, 2, 4, 8, 16, 32] 4 1 = Inr (67 / 6)"
  using finiteDifference5AtIndex_by_range [of "[1, 2, 4, 8, 16, 32]" 2 1]
    finiteDifference5AtIndex_by_range [of "[1, 2, 4, 8, 16, 32]" 0 1]
    finiteDifference5AtIndex_by_range [of "[1, 2, 4, 8, 16, 32]" 4 1]
  by (simp add: finiteDifference5_spec_def)

section \<open>The nearest node and the stencil around it\<close>

lemma findNearestIndex_fold_min:
  fixes x :: "real list" and X :: real
  defines "step \<equiv> (\<lambda>i (nearestIndex, minDist).
            let dist = \<bar>x ! i - X\<bar> in
            if dist < minDist then (i, dist) else (nearestIndex, minDist))"
  assumes "snd st = \<bar>x ! fst st - X\<bar>" and "\<forall>i\<in>P. snd st \<le> \<bar>x ! i - X\<bar>"
  shows "snd (fold step js st) = \<bar>x ! fst (fold step js st) - X\<bar>
       \<and> (\<forall>i\<in>P \<union> set js. snd (fold step js st) \<le> \<bar>x ! i - X\<bar>)"
  using assms(2,3)
proof (induction js arbitrary: st P)
  case Nil
  then show ?case by simp
next
  case (Cons j js)
  have 1: "snd (step j st) = \<bar>x ! fst (step j st) - X\<bar>"
    using Cons.prems(1) by (cases st) (auto simp: step_def Let_def)
  have 2: "\<forall>i\<in>insert j P. snd (step j st) \<le> \<bar>x ! i - X\<bar>"
    using Cons.prems(1,2) by (cases st) (auto simp: step_def Let_def)
  have e: "fold step (j # js) st = fold step js (step j st)"
    by simp
  have u: "P \<union> set (j # js) = insert j P \<union> set js"
    by simp
  show ?case
    unfolding e u by (rule Cons.IH [OF 1 2])
qed

lemma findNearestIndex_min:
  assumes "findNearestIndex x X = Inr k" and "i < length x"
  shows "\<bar>x ! k - X\<bar> \<le> \<bar>x ! i - X\<bar>"
proof -
  let ?r = "fold (\<lambda>i (nearestIndex, minDist).
            let dist = \<bar>x ! i - X\<bar> in
            if dist < minDist then (i, dist) else (nearestIndex, minDist))
        [1..<length x] (0, \<bar>x ! 0 - X\<bar>)"
  from assms(1) have k: "k = fst ?r" and ne: "length x \<noteq> 0"
    by (auto simp: findNearestIndex_def split: if_splits)
  have r: "snd ?r = \<bar>x ! fst ?r - X\<bar> \<and> (\<forall>i\<in>{0} \<union> set [1..<length x]. snd ?r \<le> \<bar>x ! i - X\<bar>)"
    by (rule findNearestIndex_fold_min) simp_all
  have "i \<in> {0} \<union> set [1..<length x]"
    using assms(2) by auto
  with r have "snd ?r \<le> \<bar>x ! i - X\<bar>"
    by blast
  with r show ?thesis
    unfolding k by simp
qed





lemma get5PointStencilIndices_Inr:
  assumes "5 \<le> length x"
  obtains k where
    "get5PointStencilIndices x X = Inr [int k, int k + 1, int k + 2, int k + 3, int k + 4]"
    and "k + 5 \<le> length x"
proof -
  from assms have "x \<noteq> []" by auto
  then obtain nearest where nr: "findNearestIndex x X = Inr nearest"
    using findNearestIndex_total by blast
  then have lt: "nearest < length x"
    by (rule findNearestIndex_bound)
  define start where "start = (let lo = max 0 (int nearest - 2)
                    in if int (length x) \<le> lo + 4 then int (length x) - 5 else lo)"
  have upt5: "[0..<5] = [0, 1, 2, 3, 4::nat]"
    by (simp add: upt_rec)
  have res: "get5PointStencilIndices x X = Inr [start, start + 1, start + 2, start + 3, start + 4]"
    using assms nr by (auto simp: get5PointStencilIndices_def start_def Let_def upt5 max_def)
  have b: "0 \<le> start" "start \<le> int (length x) - 5"
    using assms lt by (auto simp: start_def Let_def max_def)
  show thesis
  proof (rule that [of "nat start"])
    show "get5PointStencilIndices x X
        = Inr [int (nat start), int (nat start) + 1, int (nat start) + 2, int (nat start) + 3,
               int (nat start) + 4]"
      using res b by simp
    show "nat start + 5 \<le> length x"
      using b by linarith
  qed
qed

lemma stencil_nodes_distinct:
  fixes x :: "real list"
  assumes "sorted_wrt (<) x" and "k + 5 \<le> length x"
  shows "distinct [x ! k, x ! (k + 1), x ! (k + 2), x ! (k + 3), x ! (k + 4)]"
proof -
  have lt: "x ! i < x ! j" if "i < j" "j < length x" for i j
    using sorted_wrt_nth_less [OF assms(1) that] .
  have "x ! k < x ! (k + 1)" "x ! (k + 1) < x ! (k + 2)" "x ! (k + 2) < x ! (k + 3)"
    "x ! (k + 3) < x ! (k + 4)"
    using assms(2) by (auto intro!: lt)
  then show ?thesis by auto
qed

lemma quartic_as_sum:
  fixes c0 c1 c2 c3 c4 s :: real
  shows "(\<Sum>k<5. [c0, c1, c2, c3, c4] ! k * s ^ k)
           = c0 + c1 * s + c2 * s\<^sup>2 + c3 * s ^ 3 + c4 * s ^ 4"
    and "(\<Sum>k<5. [c0, c1, c2, c3, c4] ! k * (real k * s ^ (k - 1)))
           = c1 + 2 * c2 * s + 3 * c3 * s\<^sup>2 + 4 * c4 * s ^ 3"
  by (simp_all add: eval_nat_numeral lessThan_Suc algebra_simps)

lemma interpolation5_points_exact:
  fixes c0 c1 c2 c3 c4 :: real
  assumes srt: "sorted_wrt (<) x" and n: "5 \<le> length x"
    and f: "f = map (\<lambda>s. c0 + c1 * s + c2 * s\<^sup>2 + c3 * s ^ 3 + c4 * s ^ 4) x"
  shows "interpolation5_points x f Xs
           = Inr (map (\<lambda>t. c1 + 2 * c2 * t + 3 * c3 * t\<^sup>2 + 4 * c4 * t ^ 3) Xs)"
proof (induction Xs)
  case Nil
  show ?case by simp
next
  case (Cons Xk rest)
  let ?p = "\<lambda>s. c0 + c1 * s + c2 * s\<^sup>2 + c3 * s ^ 3 + c4 * s ^ 4"
  obtain k where idx:
    "get5PointStencilIndices x Xk = Inr [int k, int k + 1, int k + 2, int k + 3, int k + 4]"
    and k: "k + 5 \<le> length x"
    using get5PointStencilIndices_Inr [OF n] by blast
  let ?xl = "[x ! k, x ! (k + 1), x ! (k + 2), x ! (k + 3), x ! (k + 4)]"
  have nat_simps: "nat (int k + 1) = k + 1" "nat (int k + 2) = k + 2"
    "nat (int k + 3) = k + 3" "nat (int k + 4) = k + 4"
    by simp_all
  have xl: "map (\<lambda>i. x ! nat i) [int k, int k + 1, int k + 2, int k + 3, int k + 4] = ?xl"
    by (simp add: nat_simps)
  have len5: "length ?xl = 5"
    by simp
  have p_eq: "(\<lambda>s. \<Sum>j<length ?xl. [c0, c1, c2, c3, c4] ! j * s ^ j) = ?p"
    unfolding len5 by (rule ext) (rule quartic_as_sum(1))
  have fl0: "map (\<lambda>i. f ! nat i) [int k, int k + 1, int k + 2, int k + 3, int k + 4]
      = map ?p ?xl"
    using k unfolding f by (simp add: nat_simps)
  have fl: "map (\<lambda>i. f ! nat i) [int k, int k + 1, int k + 2, int k + 3, int k + 4]
      = map (\<lambda>s. \<Sum>j<length ?xl. [c0, c1, c2, c3, c4] ! j * s ^ j) ?xl"
    unfolding p_eq by (rule fl0)
  have d: "distinct ?xl"
    by (rule stencil_nodes_distinct [OF srt k])
  have "computeLagrangeDerivativeAtPoint ?xl
          (map (\<lambda>s. \<Sum>j<length ?xl. [c0, c1, c2, c3, c4] ! j * s ^ j) ?xl) Xk
      = (\<Sum>j<length ?xl. [c0, c1, c2, c3, c4] ! j * (real j * Xk ^ (j - 1)))"
    by (rule lagrange_derivative_exact [OF d]) simp
  also have "\<dots> = c1 + 2 * c2 * Xk + 3 * c3 * Xk\<^sup>2 + 4 * c4 * Xk ^ 3"
    unfolding len5 by (rule quartic_as_sum(2))
  finally have dv: "computeLagrangeDerivativeAtPoint
        (map (\<lambda>i. x ! nat i) [int k, int k + 1, int k + 2, int k + 3, int k + 4])
        (map (\<lambda>i. f ! nat i) [int k, int k + 1, int k + 2, int k + 3, int k + 4]) Xk
      = c1 + 2 * c2 * Xk + 3 * c3 * Xk\<^sup>2 + 4 * c4 * Xk ^ 3"
    by (simp only: xl fl)
  have "interpolation5_points x f (Xk # rest)
      = Inr ((c1 + 2 * c2 * Xk + 3 * c3 * Xk\<^sup>2 + 4 * c4 * Xk ^ 3)
             # map (\<lambda>t. c1 + 2 * c2 * t + 3 * c3 * t\<^sup>2 + 4 * c4 * t ^ 3) rest)"
    by (simp only: interpolation5_points.simps idx sum.case Let_def dv Cons.IH)
  then show ?case
    by simp
qed

section \<open>Differentiation by interpolation is exact on quartics\<close>

lemma js_nth_Fin: "i < length xs \<Longrightarrow> js_nth (map Fin xs) i = Fin (xs ! i)"
  by (simp add: js_nth_def)

lemma validateTabular_Fin:
  assumes "sorted_wrt (<) xs" and "m \<le> length xs" and "length fs = length xs"
  shows "validateTabular \<lparr>tab_x = map Fin xs, tab_f = map Fin fs\<rparr> m = Inr ()"
  using assms
  by (simp add: validateTabular_Inr_iff isStrictlyIncreasing_Fin list_all_isFinite_Fin)

lemma validatePointsToEvaluate_Fin:
  assumes "Xs \<noteq> []" and "xs \<noteq> []"
    and "\<forall>X\<in>set Xs. xs ! 0 \<le> X \<and> X \<le> xs ! (length xs - 1)"
  shows "validatePointsToEvaluate \<lparr>tab_x = map Fin xs, tab_f = fs\<rparr> (map Fin Xs) True = Inr ()"
proof -
  have 0: "js_nth (map Fin xs) 0 = Fin (xs ! 0)"
    using assms(2) by (simp add: js_nth_Fin)
  have 1: "js_nth (map Fin xs) (length xs - Suc 0) = Fin (xs ! (length xs - Suc 0))"
    using assms(2) by (simp add: js_nth_Fin)
  show ?thesis
    using assms(1,3)
    by (auto simp: validatePointsToEvaluate_range_iff list_all_isFinite_Fin 0 1 not_less)
qed

lemma interpolation5_points_total:
  assumes "5 \<le> length x"
  shows "\<exists>Fd. interpolation5_points x f Xs = Inr Fd \<and> length Fd = length Xs"
proof (induction Xs)
  case Nil
  show ?case by simp
next
  case (Cons Xk rest)
  obtain k where
    "get5PointStencilIndices x Xk = Inr [int k, int k + 1, int k + 2, int k + 3, int k + 4]"
    using get5PointStencilIndices_Inr [OF assms] by blast
  with Cons show ?case
    by (auto simp: Let_def)
qed

lemma differentiateByInterpolation5_valid:
  assumes "validateTabular table 5 = Inr ()"
    and "validatePointsToEvaluate table X True = Inr ()"
  shows "\<exists>Fd. differentiateByInterpolation5 table X = Inr \<lparr>dr_X = X, dr_Fd = Fd\<rparr>
           \<and> length Fd = length X
           \<and> interpolation5_points (map toReal (tab_x table)) (map toReal (tab_f table))
                (map toReal X) = Inr Fd"
proof -
  have n: "5 \<le> length (tab_x table)"
    using assms(1) by (simp add: validateTabular_Inr_iff)
  then have n': "5 \<le> length (map toReal (tab_x table))" by simp
  obtain Fd where Fd: "interpolation5_points (map toReal (tab_x table))
      (map toReal (tab_f table)) (map toReal X) = Inr Fd" "length Fd = length (map toReal X)"
    using interpolation5_points_total [OF n'] by blast
  show ?thesis
    using assms n Fd
    by (simp add: differentiateByInterpolation5_def validateMinPointsForMethod_def Let_def)
qed

lemma differentiateByInterpolation5_Inr:
  assumes "differentiateByInterpolation5 table X = Inr r"
  shows "validateTabular table 5 = Inr ()" and "validatePointsToEvaluate table X True = Inr ()"
  using assms
  by (auto simp: differentiateByInterpolation5_def Let_def split: sum.splits)

lemma differentiateByInterpolation5_Inl:
  assumes "differentiateByInterpolation5 table X = Inl e"
  shows "e = TabularDataError"
proof (cases "validateTabular table 5")
  case (Inl e')
  with assms validateTabular_Inl [OF Inl] show ?thesis
    by (simp add: differentiateByInterpolation5_def)
next
  case (Inr u)
  then have v: "validateTabular table 5 = Inr ()" by simp
  show ?thesis
  proof (cases "validatePointsToEvaluate table X True")
    case (Inl e')
    with assms v validatePointsToEvaluate_Inl [OF Inl] show ?thesis
      by (auto simp: differentiateByInterpolation5_def validateMinPointsForMethod_def
          split: if_splits)
  next
    case (Inr u')
    then have "validatePointsToEvaluate table X True = Inr ()" by simp
    from differentiateByInterpolation5_valid [OF v this] assms show ?thesis
      by auto
  qed
qed

text \<open>
  Claim C3. For a polynomial \<open>p\<close> of degree at most 4, sampled at five or more strictly
  increasing nodes, \<open>differentiateByInterpolation5\<close> returns the exact derivative
  \<open>p'(Xk)\<close> at every evaluation point in the range of the nodes. The scenario of the
  specification (nodes \<open>-2, ..., 2\<close>, \<open>p(x) = x\<^sup>4 - 2x\<^sup>3 + x - 1\<close>, points
  \<open>-1.5, -0.5, 0.5, 1.5\<close>) is the instance proved after the theorem: the derivatives are
  \<open>-26, -1, 0, 1\<close>, the values of \<open>4x\<^sup>3 - 6x\<^sup>2 + 1\<close>.
\<close>

theorem interpolation5_exact_for_quartics:
  fixes c0 c1 c2 c3 c4 :: real
  assumes "sorted_wrt (<) xs" and "5 \<le> length xs" and "Xs \<noteq> []"
    and "\<forall>X\<in>set Xs. xs ! 0 \<le> X \<and> X \<le> xs ! (length xs - 1)"
  shows "differentiateByInterpolation5
           \<lparr>tab_x = map Fin xs,
            tab_f = map Fin (map (\<lambda>s. c0 + c1 * s + c2 * s\<^sup>2 + c3 * s ^ 3 + c4 * s ^ 4) xs)\<rparr>
           (map Fin Xs)
         = Inr \<lparr>dr_X = map Fin Xs,
                dr_Fd = map (\<lambda>t. c1 + 2 * c2 * t + 3 * c3 * t\<^sup>2 + 4 * c4 * t ^ 3) Xs\<rparr>"
proof -
  let ?fs = "map (\<lambda>s. c0 + c1 * s + c2 * s\<^sup>2 + c3 * s ^ 3 + c4 * s ^ 4) xs"
  let ?table = "\<lparr>tab_x = map Fin xs, tab_f = map Fin ?fs\<rparr>"
  have ne: "xs \<noteq> []" using assms(2) by auto
  have v: "validateTabular ?table 5 = Inr ()"
    by (rule validateTabular_Fin) (use assms in simp_all)
  have p: "validatePointsToEvaluate ?table (map Fin Xs) True = Inr ()"
    by (rule validatePointsToEvaluate_Fin [OF assms(3) ne assms(4)])
  obtain Fd where r: "differentiateByInterpolation5 ?table (map Fin Xs)
      = Inr \<lparr>dr_X = map Fin Xs, dr_Fd = Fd\<rparr>"
    and Fd: "interpolation5_points (map toReal (tab_x ?table)) (map toReal (tab_f ?table))
                (map toReal (map Fin Xs)) = Inr Fd"
    using differentiateByInterpolation5_valid [OF v p] by blast
  have "interpolation5_points xs ?fs Xs
      = Inr (map (\<lambda>t. c1 + 2 * c2 * t + 3 * c3 * t\<^sup>2 + 4 * c4 * t ^ 3) Xs)"
    by (rule interpolation5_points_exact [OF assms(1,2) refl])
  with Fd have "Fd = map (\<lambda>t. c1 + 2 * c2 * t + 3 * c3 * t\<^sup>2 + 4 * c4 * t ^ 3) Xs"
    by (simp add: comp_def)
  with r show ?thesis by simp
qed

theorem interpolation5_exact_for_quartics_witness:
  "sorted_wrt (<) [-2, -1, 0, 1, 2 :: real] \<and> 5 \<le> length [-2, -1, 0, 1, 2 :: real]
   \<and> [- 3 / 2, - 1 / 2, 1 / 2, 3 / 2 :: real] \<noteq> []
   \<and> list_all (\<lambda>X. [-2, -1, 0, 1, 2] ! 0 \<le> X
                     \<and> X \<le> [-2, -1, 0, 1, 2] ! (length [-2, -1, 0, 1, 2 :: real] - 1))
         [- 3 / 2, - 1 / 2, 1 / 2, 3 / 2 :: real]
   \<and> differentiateByInterpolation5
        \<lparr>tab_x = [Fin (-2), Fin (-1), Fin 0, Fin 1, Fin 2],
         tab_f = [Fin 29, Fin 1, Fin (-1), Fin (-1), Fin 1]\<rparr>
        [Fin (- 3 / 2), Fin (- 1 / 2), Fin (1 / 2), Fin (3 / 2)]
      = Inr \<lparr>dr_X = [Fin (- 3 / 2), Fin (- 1 / 2), Fin (1 / 2), Fin (3 / 2)],
             dr_Fd = [-26, -1, 0, 1]\<rparr>"
proof -
  have h1: "sorted_wrt (<) [-2, -1, 0, 1, 2 :: real]" by simp
  have h2: "5 \<le> length [-2, -1, 0, 1, 2 :: real]" by simp
  have h3: "[- 3 / 2, - 1 / 2, 1 / 2, 3 / 2 :: real] \<noteq> []" by simp
  have h4: "\<forall>X\<in>set [- 3 / 2, - 1 / 2, 1 / 2, 3 / 2 :: real].
         [-2, -1, 0, 1, 2] ! 0 \<le> X \<and> X \<le> [-2, -1, 0, 1, 2] ! (length [-2, -1, 0, 1, 2 :: real] - 1)"
    by simp
  have f: "map Fin (map (\<lambda>s. (-1) + 1 * s + 0 * s\<^sup>2 + (-2) * s ^ 3 + 1 * s ^ 4)
                [-2, -1, 0, 1, 2 :: real])
         = [Fin 29, Fin 1, Fin (-1), Fin (-1), Fin 1]"
    by simp
  have d: "map (\<lambda>t. 1 + 2 * 0 * t + 3 * (-2) * t\<^sup>2 + 4 * 1 * t ^ 3)
              [- 3 / 2, - 1 / 2, 1 / 2, 3 / 2 :: real] = [-26, -1, 0, 1]"
    by (simp add: power2_eq_square power3_eq_cube)
  have x: "map Fin [-2, -1, 0, 1, 2 :: real] = [Fin (-2), Fin (-1), Fin 0, Fin 1, Fin 2]"
    and X: "map Fin [- 3 / 2, - 1 / 2, 1 / 2, 3 / 2 :: real]
         = [Fin (- 3 / 2), Fin (- 1 / 2), Fin (1 / 2), Fin (3 / 2)]"
    by simp_all
  note r = interpolation5_exact_for_quartics [OF h1 h2 h3 h4, of "-1" 1 0 "-2" 1,
      unfolded f d x X]
  have h4': "list_all (\<lambda>X. [-2, -1, 0, 1, 2] ! 0 \<le> X
                     \<and> X \<le> [-2, -1, 0, 1, 2] ! (length [-2, -1, 0, 1, 2 :: real] - 1))
         [- 3 / 2, - 1 / 2, 1 / 2, 3 / 2 :: real]"
    by simp
  show ?thesis
    by (intro conjI h1 h2 h3 h4' r)
qed

section \<open>Differentiation by finite differences: when it fails\<close>

lemma fold_add_sum_list:
  fixes vs :: "real list"
  shows "fold (\<lambda>v s. s + v) vs a = a + sum_list vs"
  by (induction vs arbitrary: a) simp_all

lemma getApproximateStep_eq:
  assumes "2 \<le> length x"
  shows "getApproximateStep x tolerance
           = (if gridIsUniform x tolerance then Some (meanSpacing x) else None)"
proof -
  have len: "length [1..<length x] = length x - 1"
    by simp
  have "\<not> length x < 2" using assms by simp
  then show ?thesis
    by (simp add: getApproximateStep_def Let_def fold_add_sum_list meanSpacing_def
        gridIsUniform_def list_ex_iff list_all_iff not_le)
qed

lemma sum_list_positive:
  fixes vs :: "real list"
  assumes "vs \<noteq> []" and "\<And>v. v \<in> set vs \<Longrightarrow> 0 < v"
  shows "0 < sum_list vs"
  using assms
proof (induction vs)
  case Nil
  then show ?case by simp
next
  case (Cons v vs)
  have "0 \<le> sum_list vs"
    by (rule sum_list_nonneg) (use Cons.prems(2) in \<open>auto intro: less_imp_le\<close>)
  moreover have "0 < v" using Cons.prems(2) by simp
  ultimately show ?case by simp
qed

lemma meanSpacing_pos:
  assumes "sorted_wrt (<) x" and "2 \<le> length x"
  shows "0 < meanSpacing x"
proof -
  have step: "0 < x ! i - x ! (i - 1)" if "i \<in> set [1..<length x]" for i
  proof -
    from that have "i - 1 < i" "i < length x" by auto
    from sorted_wrt_nth_less [OF assms(1) this] show ?thesis by simp
  qed
  have "[1..<length x] \<noteq> []" using assms(2) by (cases x) auto
  then have "0 < sum_list (map (\<lambda>i. x ! i - x ! (i - 1)) [1..<length x])"
    using step by (intro sum_list_positive) auto
  moreover have "0 < real (length x - 1)" using assms(2) by simp
  ultimately show ?thesis
    by (simp add: meanSpacing_def)
qed

lemma nearSomeNode_nearest:
  assumes "findNearestIndex x Xk = Inr idx"
  shows "nearSomeNode x Xk tolerance \<longleftrightarrow> \<bar>Xk - x ! idx\<bar> \<le> tolerance"
proof
  assume "nearSomeNode x Xk tolerance"
  then obtain i where i: "i < length x" "\<bar>Xk - x ! i\<bar> \<le> tolerance"
    by (auto simp: nearSomeNode_def list_ex_iff)
  from findNearestIndex_min [OF assms i(1)] have "\<bar>x ! idx - Xk\<bar> \<le> \<bar>x ! i - Xk\<bar>" .
  then have "\<bar>Xk - x ! idx\<bar> \<le> \<bar>Xk - x ! i\<bar>"
    by (simp add: abs_minus_commute)
  with i(2) show "\<bar>Xk - x ! idx\<bar> \<le> tolerance" by simp
next
  assume "\<bar>Xk - x ! idx\<bar> \<le> tolerance"
  moreover have "idx < length x" by (rule findNearestIndex_bound [OF assms])
  ultimately show "nearSomeNode x Xk tolerance"
    by (auto simp: nearSomeNode_def list_ex_iff)
qed

lemma finiteDifference5AtIndex_total:
  "5 \<le> length f \<Longrightarrow> \<exists>d. finiteDifference5AtIndex f i h = Inr d"
  by (simp add: finiteDifference5AtIndex_def Let_def)

lemma approximation5_points_near:
  assumes "x \<noteq> []" and "5 \<le> length f"
  shows "(list_all (\<lambda>Xk. nearSomeNode x Xk tol) Xs \<longrightarrow>
            (\<exists>Fd. approximation5_points x f h tol Xs = Inr Fd \<and> length Fd = length Xs))
       \<and> (\<not> list_all (\<lambda>Xk. nearSomeNode x Xk tol) Xs \<longrightarrow>
            approximation5_points x f h tol Xs = Inl TabularDataError)"
proof (induction Xs)
  case Nil
  show ?case by simp
next
  case (Cons Xk rest)
  obtain idx where idx: "findNearestIndex x Xk = Inr idx"
    using findNearestIndex_total [OF assms(1)] by blast
  obtain d where d: "finiteDifference5AtIndex f idx h = Inr d"
    using finiteDifference5AtIndex_total [OF assms(2)] by blast
  note near = nearSomeNode_nearest [OF idx, of tol]
  show ?case
  proof (cases "nearSomeNode x Xk tol")
    case True
    then have "\<not> \<bar>Xk - x ! idx\<bar> > tol" using near by simp
    with True Cons idx d show ?thesis
      by (cases "list_all (\<lambda>Xk. nearSomeNode x Xk tol) rest") (auto simp: Let_def)
  next
    case False
    then have "\<bar>Xk - x ! idx\<bar> > tol" using near by simp
    with False idx show ?thesis
      by (simp add: Let_def)
  qed
qed

lemma differentiateByApproximation5_valid:
  assumes v: "validateTabular table 5 = Inr ()"
    and p: "validatePointsToEvaluate table X True = Inr ()"
  shows "differentiateByApproximation5 table X =
     (let x = map toReal (tab_x table); f = map toReal (tab_f table); h = meanSpacing x in
      if gridIsUniform x (1 / 1000000) then
        (case approximation5_points x f h (\<bar>h\<bar> * (1 / 1000)) (map toReal X) of
           Inl e \<Rightarrow> Inl e
         | Inr Fd \<Rightarrow> Inr \<lparr>dr_X = X, dr_Fd = Fd\<rparr>)
      else Inl TabularDataError)"
proof -
  note s = validateTabular_sorted [OF v]
  have n2: "2 \<le> length (map toReal (tab_x table))"
    using s(3) by linarith
  have hpos: "0 < meanSpacing (map toReal (tab_x table))"
    by (rule meanSpacing_pos [OF s(1) n2])
  then have hz: "\<bar>meanSpacing (map toReal (tab_x table))\<bar> \<noteq> 0"
    by simp
  have m: "validateMinPointsForMethod table 5 = Inr ()"
    using s(3) by (simp add: validateMinPointsForMethod_def)
  show ?thesis
    unfolding differentiateByApproximation5_def Let_def getApproximateStep_eq [OF n2]
    using hz by (simp add: v p m)
qed

lemma differentiateByApproximation5_invalid:
  assumes "validateTabular table 5 \<noteq> Inr () \<or> validatePointsToEvaluate table X True \<noteq> Inr ()"
  shows "differentiateByApproximation5 table X = Inl TabularDataError"
proof (cases "validateTabular table 5")
  case (Inl e)
  with validateTabular_Inl [OF Inl] show ?thesis
    by (simp add: differentiateByApproximation5_def)
next
  case (Inr u)
  then have v: "validateTabular table 5 = Inr ()" by simp
  with assms obtain e where e: "validatePointsToEvaluate table X True = Inl e"
    by (cases "validatePointsToEvaluate table X True") auto
  then have e': "e = TabularDataError"
    by (rule validatePointsToEvaluate_Inl)
  show ?thesis
    unfolding differentiateByApproximation5_def Let_def
    by (simp add: v e e' validateMinPointsForMethod_def split: sum.splits option.splits)
qed

text \<open>
  The decision of \<open>differentiateByApproximation5\<close> in the exact arithmetic of the model,
  for a table and points that pass the validations: it succeeds when the grid is uniform
  within \<open>10\<^sup>-\<^sup>6\<close> and every point lies within \<open>|h| \<cdot> 10\<^sup>-\<^sup>3\<close> of a node, and fails
  with a data error otherwise. The program takes the same decision on rounded sums,
  means and tolerances, so at the thresholds its outcome can differ from this one; the
  lemma is used below only for what does not depend on that: the kind of the error, and
  what a success implies about the validations and the length of the result.
\<close>

lemma differentiateByApproximation5_result:
  assumes v: "validateTabular table 5 = Inr ()"
    and p: "validatePointsToEvaluate table X True = Inr ()"
  shows "(gridIsUniform (map toReal (tab_x table)) (1 / 1000000)
        \<and> list_all (\<lambda>Xk. nearSomeNode (map toReal (tab_x table)) Xk
              (\<bar>meanSpacing (map toReal (tab_x table))\<bar> * (1 / 1000))) (map toReal X)
       \<longrightarrow> (\<exists>Fd. differentiateByApproximation5 table X = Inr \<lparr>dr_X = X, dr_Fd = Fd\<rparr>
              \<and> length Fd = length X))
    \<and> (\<not> (gridIsUniform (map toReal (tab_x table)) (1 / 1000000)
        \<and> list_all (\<lambda>Xk. nearSomeNode (map toReal (tab_x table)) Xk
              (\<bar>meanSpacing (map toReal (tab_x table))\<bar> * (1 / 1000))) (map toReal X))
       \<longrightarrow> differentiateByApproximation5 table X = Inl TabularDataError)"
proof -
  note s = validateTabular_sorted [OF v]
  have ne: "map toReal (tab_x table) \<noteq> []"
    using s(3) by auto
  have n5: "5 \<le> length (map toReal (tab_f table))"
    using s(2,3) by simp
  note pts = approximation5_points_near [OF ne n5,
      of "\<bar>meanSpacing (map toReal (tab_x table))\<bar> * (1 / 1000)" "map toReal X"
         "meanSpacing (map toReal (tab_x table))"]
  show ?thesis
    unfolding differentiateByApproximation5_valid [OF v p] Let_def
    using pts by (auto simp del: list.pred_map)
qed

lemma differentiateByApproximation5_Inl:
  assumes "differentiateByApproximation5 table X = Inl e"
  shows "e = TabularDataError"
proof (cases "validateTabular table 5 = Inr () \<and> validatePointsToEvaluate table X True = Inr ()")
  case True
  with differentiateByApproximation5_result [of table X] assms show ?thesis
    by (cases "gridIsUniform (map toReal (tab_x table)) (1 / 1000000)
        \<and> list_all (\<lambda>Xk. nearSomeNode (map toReal (tab_x table)) Xk
              (\<bar>meanSpacing (map toReal (tab_x table))\<bar> * (1 / 1000))) (map toReal X)") auto
next
  case False
  then have "differentiateByApproximation5 table X = Inl TabularDataError"
    by (intro differentiateByApproximation5_invalid) auto
  with assms show ?thesis by simp
qed

lemma differentiateByApproximation5_Inr:
  assumes "differentiateByApproximation5 table X = Inr r"
  shows "validateTabular table 5 = Inr ()" and "validatePointsToEvaluate table X True = Inr ()"
    and "dr_X r = X" and "length (dr_Fd r) = length X"
proof -
  have vp: "validateTabular table 5 = Inr () \<and> validatePointsToEvaluate table X True = Inr ()"
  proof (rule ccontr)
    assume "\<not> ?thesis"
    then have "differentiateByApproximation5 table X = Inl TabularDataError"
      by (intro differentiateByApproximation5_invalid) auto
    with assms show False by simp
  qed
  then show "validateTabular table 5 = Inr ()" "validatePointsToEvaluate table X True = Inr ()"
    by simp_all
  from differentiateByApproximation5_result [of table X] vp assms
  show "dr_X r = X" "length (dr_Fd r) = length X"
    by (cases "gridIsUniform (map toReal (tab_x table)) (1 / 1000000)
        \<and> list_all (\<lambda>Xk. nearSomeNode (map toReal (tab_x table)) Xk
              (\<bar>meanSpacing (map toReal (tab_x table))\<bar> * (1 / 1000))) (map toReal X)";
        auto)+
qed

section \<open>Comparison of the differentiation methods: failures of one or both\<close>

lemma differentiationSummaryStep_rows:
  "fst (differentiationSummaryStep X ri ra i st)
     = fst st @ [\<lparr>dcr_X = X ! i, interpolation5 = valueAt ri i, approximation5 = valueAt ra i,
                   dcr_absDiff = (case (valueAt ri i, valueAt ra i) of
                                    (Some a, Some b) \<Rightarrow> Some \<bar>a - b\<bar>
                                  | _ \<Rightarrow> None)\<rparr>]"
  by (cases st) (auto simp: differentiationSummaryStep_def Let_def split: option.splits)

lemma differentiationSummaryStep_count:
  assumes "ri = None \<or> ra = None"
  shows "snd (snd (snd (differentiationSummaryStep X ri ra i st))) = snd (snd (snd st))"
  using assms
  by (cases st) (auto simp: differentiationSummaryStep_def Let_def valueAt_def split: option.splits)

lemma summary_fold_rows:
  "fst (fold (differentiationSummaryStep X ri ra) [0..<n] st)
     = fst st @ map (\<lambda>i. \<lparr>dcr_X = X ! i, interpolation5 = valueAt ri i,
                            approximation5 = valueAt ra i,
                            dcr_absDiff = (case (valueAt ri i, valueAt ra i) of
                                             (Some a, Some b) \<Rightarrow> Some \<bar>a - b\<bar>
                                           | _ \<Rightarrow> None)\<rparr>) [0..<n]"
  by (induction n) (simp_all add: differentiationSummaryStep_rows)

lemma summary_fold_count:
  assumes "ri = None \<or> ra = None"
  shows "snd (snd (snd (fold (differentiationSummaryStep X ri ra) [0..<n] st)))
           = snd (snd (snd st))"
  by (induction n) (simp_all add: differentiationSummaryStep_count [OF assms])

lemma summaryOfResults_rows:
  "dms_rows (summaryOfResults ri ra X)
     = map (\<lambda>i. \<lparr>dcr_X = X ! i, interpolation5 = valueAt ri i, approximation5 = valueAt ra i,
                   dcr_absDiff = (case (valueAt ri i, valueAt ra i) of
                                    (Some a, Some b) \<Rightarrow> Some \<bar>a - b\<bar>
                                  | _ \<Rightarrow> None)\<rparr>) [0..<length X]"
proof -
  obtain rows s m c where r:
    "fold (differentiationSummaryStep X ri ra) [0..<length X] ([], 0, 0, 0) = (rows, s, m, c)"
    by (cases "fold (differentiationSummaryStep X ri ra) [0..<length X] ([], 0, 0, 0)") auto
  have "rows = fst (fold (differentiationSummaryStep X ri ra) [0..<length X] ([], 0, 0, 0))"
    by (simp add: r)
  also have "\<dots> = [] @ map (\<lambda>i. \<lparr>dcr_X = X ! i, interpolation5 = valueAt ri i,
                            approximation5 = valueAt ra i,
                            dcr_absDiff = (case (valueAt ri i, valueAt ra i) of
                                             (Some a, Some b) \<Rightarrow> Some \<bar>a - b\<bar>
                                           | _ \<Rightarrow> None)\<rparr>) [0..<length X]"
    unfolding summary_fold_rows by simp
  finally show ?thesis
    by (simp add: summaryOfResults_def r Let_def)
qed

lemma summaryOfResults_no_stats:
  assumes "ri = None \<or> ra = None"
  shows "dms_meanAbsDiff (summaryOfResults ri ra X) = None"
    and "dms_maxAbsDiff (summaryOfResults ri ra X) = None"
proof -
  obtain rows s m c where r:
    "fold (differentiationSummaryStep X ri ra) [0..<length X] ([], 0, 0, 0) = (rows, s, m, c)"
    by (cases "fold (differentiationSummaryStep X ri ra) [0..<length X] ([], 0, 0, 0)") auto
  have "c = snd (snd (snd (fold (differentiationSummaryStep X ri ra) [0..<length X]
      ([], 0, 0, 0))))"
    by (simp add: r)
  also have "\<dots> = 0"
    unfolding summary_fold_count [OF assms] by simp
  finally have c: "c = 0" .
  show "dms_meanAbsDiff (summaryOfResults ri ra X) = None"
    and "dms_maxAbsDiff (summaryOfResults ri ra X) = None"
    by (simp_all add: summaryOfResults_def r c Let_def)
qed

lemma summary_equality:
  assumes "dms_rows s = rows" and "dms_meanAbsDiff s = a" and "dms_maxAbsDiff s = b"
  shows "s = \<lparr>dms_rows = rows, dms_meanAbsDiff = a, dms_maxAbsDiff = b\<rparr>"
  using assms by (cases s) simp

lemma summaryOfResults_only_interpolation:
  assumes "length (dr_Fd ri) = length X"
  shows "summaryOfResults (Some ri) None X
     = \<lparr>dms_rows = map (\<lambda>k. \<lparr>dcr_X = X ! k, interpolation5 = Some (dr_Fd ri ! k),
                               approximation5 = None, dcr_absDiff = None\<rparr>) [0..<length X],
        dms_meanAbsDiff = None, dms_maxAbsDiff = None\<rparr>"
proof (rule summary_equality)
  show "dms_rows (summaryOfResults (Some ri) None X)
      = map (\<lambda>k. \<lparr>dcr_X = X ! k, interpolation5 = Some (dr_Fd ri ! k),
                               approximation5 = None, dcr_absDiff = None\<rparr>) [0..<length X]"
    unfolding summaryOfResults_rows
    by (rule map_cong) (simp_all add: valueAt_def assms)
qed (simp_all add: summaryOfResults_no_stats)

lemma summaryOfResults_only_approximation:
  assumes "length (dr_Fd ra) = length X"
  shows "summaryOfResults None (Some ra) X
     = \<lparr>dms_rows = map (\<lambda>k. \<lparr>dcr_X = X ! k, interpolation5 = None,
                               approximation5 = Some (dr_Fd ra ! k), dcr_absDiff = None\<rparr>)
                      [0..<length X],
        dms_meanAbsDiff = None, dms_maxAbsDiff = None\<rparr>"
proof (rule summary_equality)
  show "dms_rows (summaryOfResults None (Some ra) X)
      = map (\<lambda>k. \<lparr>dcr_X = X ! k, interpolation5 = None,
                               approximation5 = Some (dr_Fd ra ! k), dcr_absDiff = None\<rparr>)
            [0..<length X]"
    unfolding summaryOfResults_rows
    by (rule map_cong) (simp_all add: valueAt_def assms)
qed (simp_all add: summaryOfResults_no_stats)

lemma summaryOfResults_neither:
  "summaryOfResults None None X
     = \<lparr>dms_rows = map (\<lambda>k. \<lparr>dcr_X = X ! k, interpolation5 = None,
                               approximation5 = None, dcr_absDiff = None\<rparr>) [0..<length X],
        dms_meanAbsDiff = None, dms_maxAbsDiff = None\<rparr>"
proof (rule summary_equality)
  show "dms_rows (summaryOfResults None None X)
      = map (\<lambda>k. \<lparr>dcr_X = X ! k, interpolation5 = None,
                               approximation5 = None, dcr_absDiff = None\<rparr>) [0..<length X]"
    unfolding summaryOfResults_rows
    by (rule map_cong) (simp_all add: valueAt_def)
qed (simp_all add: summaryOfResults_no_stats)

lemma interpolation5_length:
  assumes "differentiateByInterpolation5 table X = Inr ri"
  shows "length (dr_Fd ri) = length X"
proof -
  note v = differentiateByInterpolation5_Inr [OF assms]
  from differentiateByInterpolation5_valid [OF v] assms show ?thesis
    by auto
qed

lemma approximation5_implies_interpolation5:
  assumes "differentiateByApproximation5 table X = Inr ra"
  shows "\<exists>ri. differentiateByInterpolation5 table X = Inr ri"
proof -
  note v = differentiateByApproximation5_Inr(1,2) [OF assms]
  from differentiateByInterpolation5_valid [OF v] show ?thesis
    by blast
qed

text \<open>
  Claim C6. When \<open>differentiateByInterpolation5\<close> succeeds and
  \<open>differentiateByApproximation5\<close> raises, \<open>buildDifferentiationMethodsSummary\<close> still
  returns: one row per point of \<open>X\<close>, with the computed derivative in \<open>interpolation5\<close>,
  null in \<open>approximation5\<close> and in \<open>absDiff\<close>, and null mean and maximum. The symmetric
  outcome is stated on the merging step \<open>summaryOfResults\<close>, which treats an absent
  interpolation result in the same way; from the two methods themselves it does not
  arise, because a successful approximation implies a successful interpolation (both
  run the same validations), which is the last part of the theorem.
\<close>

theorem summary_when_one_method_fails:
  "(differentiateByInterpolation5 table X = Inr ri
      \<and> differentiateByApproximation5 table X = Inl e \<longrightarrow>
      buildDifferentiationMethodsSummary table X
        = \<lparr>dms_rows = map (\<lambda>k. \<lparr>dcr_X = X ! k, interpolation5 = Some (dr_Fd ri ! k),
                                  approximation5 = None, dcr_absDiff = None\<rparr>)
                         [0..<length X],
           dms_meanAbsDiff = None, dms_maxAbsDiff = None\<rparr>)
   \<and> (length (dr_Fd ra) = length X \<longrightarrow>
      summaryOfResults None (Some ra) X
        = \<lparr>dms_rows = map (\<lambda>k. \<lparr>dcr_X = X ! k, interpolation5 = None,
                                  approximation5 = Some (dr_Fd ra ! k), dcr_absDiff = None\<rparr>)
                         [0..<length X],
           dms_meanAbsDiff = None, dms_maxAbsDiff = None\<rparr>)
   \<and> (differentiateByApproximation5 table X = Inr ra \<longrightarrow>
        (\<exists>r. differentiateByInterpolation5 table X = Inr r))"
proof (intro conjI impI)
  assume a: "differentiateByInterpolation5 table X = Inr ri
      \<and> differentiateByApproximation5 table X = Inl e"
  then have "differentiateByInterpolation5 table X = Inr ri" ..
  then have len: "length (dr_Fd ri) = length X"
    by (rule interpolation5_length)
  show "buildDifferentiationMethodsSummary table X
        = \<lparr>dms_rows = map (\<lambda>k. \<lparr>dcr_X = X ! k, interpolation5 = Some (dr_Fd ri ! k),
                                  approximation5 = None, dcr_absDiff = None\<rparr>)
                         [0..<length X],
           dms_meanAbsDiff = None, dms_maxAbsDiff = None\<rparr>"
    using a summaryOfResults_only_interpolation [OF len]
    by (simp add: buildDifferentiationMethodsSummary_def catch_null_def)
next
  assume "length (dr_Fd ra) = length X"
  then show "summaryOfResults None (Some ra) X
        = \<lparr>dms_rows = map (\<lambda>k. \<lparr>dcr_X = X ! k, interpolation5 = None,
                                  approximation5 = Some (dr_Fd ra ! k), dcr_absDiff = None\<rparr>)
                         [0..<length X],
           dms_meanAbsDiff = None, dms_maxAbsDiff = None\<rparr>"
    by (rule summaryOfResults_only_approximation)
next
  assume "differentiateByApproximation5 table X = Inr ra"
  then show "\<exists>r. differentiateByInterpolation5 table X = Inr r"
    by (rule approximation5_implies_interpolation5)
qed

theorem summary_when_one_method_fails_witness:
  "differentiateByInterpolation5
     \<lparr>tab_x = [Fin 0, Fin 1, Fin 2, Fin 3, Fin 5], tab_f = [Fin 0, Fin 1, Fin 4, Fin 9, Fin 25]\<rparr>
     [Fin 1] = Inr \<lparr>dr_X = [Fin 1], dr_Fd = [2]\<rparr>
   \<and> differentiateByApproximation5
     \<lparr>tab_x = [Fin 0, Fin 1, Fin 2, Fin 3, Fin 5], tab_f = [Fin 0, Fin 1, Fin 4, Fin 9, Fin 25]\<rparr>
     [Fin 1] = Inl TabularDataError
   \<and> buildDifferentiationMethodsSummary
     \<lparr>tab_x = [Fin 0, Fin 1, Fin 2, Fin 3, Fin 5], tab_f = [Fin 0, Fin 1, Fin 4, Fin 9, Fin 25]\<rparr>
     [Fin 1]
     = \<lparr>dms_rows = [\<lparr>dcr_X = Fin 1, interpolation5 = Some 2, approximation5 = None,
                      dcr_absDiff = None\<rparr>],
        dms_meanAbsDiff = None, dms_maxAbsDiff = None\<rparr>
   \<and> length (dr_Fd \<lparr>dr_X = [Fin 1], dr_Fd = [2]\<rparr>) = length [Fin 1]
   \<and> summaryOfResults None (Some \<lparr>dr_X = [Fin 1], dr_Fd = [2]\<rparr>) [Fin 1]
     = \<lparr>dms_rows = [\<lparr>dcr_X = Fin 1, interpolation5 = None, approximation5 = Some 2,
                      dcr_absDiff = None\<rparr>],
        dms_meanAbsDiff = None, dms_maxAbsDiff = None\<rparr>
   \<and> differentiateByApproximation5
     \<lparr>tab_x = [Fin 0, Fin 1, Fin 2, Fin 3, Fin 4], tab_f = [Fin 0, Fin 1, Fin 4, Fin 9, Fin 16]\<rparr>
     [Fin 1] = Inr \<lparr>dr_X = [Fin 1], dr_Fd = [2]\<rparr>
   \<and> (\<exists>r. differentiateByInterpolation5
     \<lparr>tab_x = [Fin 0, Fin 1, Fin 2, Fin 3, Fin 4], tab_f = [Fin 0, Fin 1, Fin 4, Fin 9, Fin 16]\<rparr>
     [Fin 1] = Inr r)"
proof -
  let ?T1 = "\<lparr>tab_x = [Fin 0, Fin 1, Fin 2, Fin 3, Fin 5],
             tab_f = [Fin 0, Fin 1, Fin 4, Fin 9, Fin 25]\<rparr>"
  let ?T2 = "\<lparr>tab_x = [Fin 0, Fin 1, Fin 2, Fin 3, Fin 4],
             tab_f = [Fin 0, Fin 1, Fin 4, Fin 9, Fin 16]\<rparr>"
  let ?r = "\<lparr>dr_X = [Fin 1], dr_Fd = [2]\<rparr>"
  have i1: "differentiateByInterpolation5 ?T1 [Fin 1] = Inr ?r"
    by code_simp
  have a1: "differentiateByApproximation5 ?T1 [Fin 1] = Inl TabularDataError"
    by code_simp
  have a2: "differentiateByApproximation5 ?T2 [Fin 1] = Inr ?r"
    by code_simp
  have len: "length (dr_Fd ?r) = length [Fin 1]"
    by simp
  note t1 = summary_when_one_method_fails [of ?T1 "[Fin 1]" ?r TabularDataError ?r]
  note t2 = summary_when_one_method_fails [of ?T2 "[Fin 1]" ?r TabularDataError ?r]
  have s1: "buildDifferentiationMethodsSummary ?T1 [Fin 1]
     = \<lparr>dms_rows = [\<lparr>dcr_X = Fin 1, interpolation5 = Some 2, approximation5 = None,
                      dcr_absDiff = None\<rparr>],
        dms_meanAbsDiff = None, dms_maxAbsDiff = None\<rparr>"
    using t1 [THEN conjunct1] i1 a1 by simp
  have s2: "summaryOfResults None (Some ?r) [Fin 1]
     = \<lparr>dms_rows = [\<lparr>dcr_X = Fin 1, interpolation5 = None, approximation5 = Some 2,
                      dcr_absDiff = None\<rparr>],
        dms_meanAbsDiff = None, dms_maxAbsDiff = None\<rparr>"
    using t1 [THEN conjunct2, THEN conjunct1] by simp
  have s3: "\<exists>r. differentiateByInterpolation5 ?T2 [Fin 1] = Inr r"
    using t2 [THEN conjunct2, THEN conjunct2] a2 by simp
  show ?thesis
    by (intro conjI i1 a1 s1 len s2 a2 s3)
qed

text \<open>
  Claim C10. \<open>buildDifferentiationMethodsSummary\<close> is total: the errors of both attempts
  are caught, so the model returns a summary for every table and every \<open>X\<close>, also
  malformed ones. The summary has exactly \<open>length X\<close> rows, row \<open>k\<close> carries \<open>X[k]\<close>, in
  order, and when both methods fail every \<open>interpolation5\<close>, \<open>approximation5\<close> and
  \<open>absDiff\<close> field is null and so are the mean and the maximum.
\<close>

theorem differentiation_summary_total:
  "length (dms_rows (buildDifferentiationMethodsSummary table X)) = length X
   \<and> map dcr_X (dms_rows (buildDifferentiationMethodsSummary table X)) = X
   \<and> ((\<exists>e. differentiateByInterpolation5 table X = Inl e)
        \<and> (\<exists>e. differentiateByApproximation5 table X = Inl e) \<longrightarrow>
       buildDifferentiationMethodsSummary table X
         = \<lparr>dms_rows = map (\<lambda>k. \<lparr>dcr_X = X ! k, interpolation5 = None,
                                   approximation5 = None, dcr_absDiff = None\<rparr>)
                          [0..<length X],
            dms_meanAbsDiff = None, dms_maxAbsDiff = None\<rparr>)"
proof (intro conjI impI)
  show "length (dms_rows (buildDifferentiationMethodsSummary table X)) = length X"
    by (simp add: buildDifferentiationMethodsSummary_def Let_def summaryOfResults_rows)
  have "map dcr_X (dms_rows (buildDifferentiationMethodsSummary table X))
      = map ((!) X) [0..<length X]"
    by (simp add: buildDifferentiationMethodsSummary_def Let_def summaryOfResults_rows comp_def)
  also have "\<dots> = X"
    by (rule map_nth)
  finally show "map dcr_X (dms_rows (buildDifferentiationMethodsSummary table X)) = X" .
next
  assume "(\<exists>e. differentiateByInterpolation5 table X = Inl e)
        \<and> (\<exists>e. differentiateByApproximation5 table X = Inl e)"
  then show "buildDifferentiationMethodsSummary table X
         = \<lparr>dms_rows = map (\<lambda>k. \<lparr>dcr_X = X ! k, interpolation5 = None,
                                   approximation5 = None, dcr_absDiff = None\<rparr>)
                          [0..<length X],
            dms_meanAbsDiff = None, dms_maxAbsDiff = None\<rparr>"
    using summaryOfResults_neither [of X]
    by (auto simp: buildDifferentiationMethodsSummary_def catch_null_def)
qed

theorem differentiation_summary_total_witness:
  "(\<exists>e. differentiateByInterpolation5 \<lparr>tab_x = [Fin 0, Fin 1], tab_f = [Fin 0]\<rparr> [Fin 3, NaN]
          = Inl e)
   \<and> (\<exists>e. differentiateByApproximation5 \<lparr>tab_x = [Fin 0, Fin 1], tab_f = [Fin 0]\<rparr> [Fin 3, NaN]
          = Inl e)
   \<and> buildDifferentiationMethodsSummary \<lparr>tab_x = [Fin 0, Fin 1], tab_f = [Fin 0]\<rparr> [Fin 3, NaN]
       = \<lparr>dms_rows = [\<lparr>dcr_X = Fin 3, interpolation5 = None, approximation5 = None,
                        dcr_absDiff = None\<rparr>,
                      \<lparr>dcr_X = NaN, interpolation5 = None, approximation5 = None,
                        dcr_absDiff = None\<rparr>],
          dms_meanAbsDiff = None, dms_maxAbsDiff = None\<rparr>"
proof -
  let ?T = "\<lparr>tab_x = [Fin 0, Fin 1], tab_f = [Fin 0]\<rparr>"
  have i: "differentiateByInterpolation5 ?T [Fin 3, NaN] = Inl TabularDataError"
    by (simp add: differentiateByInterpolation5_def validateTabular_def)
  have a: "differentiateByApproximation5 ?T [Fin 3, NaN] = Inl TabularDataError"
    by (simp add: differentiateByApproximation5_def validateTabular_def)
  have h: "(\<exists>e. differentiateByInterpolation5 ?T [Fin 3, NaN] = Inl e)
      \<and> (\<exists>e. differentiateByApproximation5 ?T [Fin 3, NaN] = Inl e)"
    using i a by simp
  have "buildDifferentiationMethodsSummary ?T [Fin 3, NaN]
       = \<lparr>dms_rows = map (\<lambda>k. \<lparr>dcr_X = [Fin 3, NaN] ! k, interpolation5 = None,
                                   approximation5 = None, dcr_absDiff = None\<rparr>)
                          [0..<length [Fin 3, NaN]],
            dms_meanAbsDiff = None, dms_maxAbsDiff = None\<rparr>"
    using differentiation_summary_total [of ?T "[Fin 3, NaN]"] h by blast
  then have "buildDifferentiationMethodsSummary ?T [Fin 3, NaN]
       = \<lparr>dms_rows = [\<lparr>dcr_X = Fin 3, interpolation5 = None, approximation5 = None,
                        dcr_absDiff = None\<rparr>,
                      \<lparr>dcr_X = NaN, interpolation5 = None, approximation5 = None,
                        dcr_absDiff = None\<rparr>],
          dms_meanAbsDiff = None, dms_maxAbsDiff = None\<rparr>"
    by (simp add: upt_rec)
  with h show ?thesis by blast
qed

section \<open>Extrapolation: allowed for interpolation, refused for differentiation\<close>

lemma interpolateLagrange_valid:
  assumes "validateTabular table 2 = Inr ()" and "X \<noteq> []" and "list_all isFinite X"
  shows "interpolateLagrange table X
     = Inr \<lparr>ir_X = X,
            ir_F = map (\<lambda>Xk. interpolateLagrangeAtPoint (map toReal (tab_x table))
                                 (map toReal (tab_f table)) (toReal Xk)) X\<rparr>"
proof -
  have "validatePointsToEvaluate table X False = Inr ()"
    using assms(2,3) by (simp add: validatePointsToEvaluate_free_iff)
  then show ?thesis
    by (simp add: interpolateLagrange_def assms(1) Let_def)
qed


lemma differentiateByInterpolation5_invalid:
  assumes "validateTabular table 5 \<noteq> Inr () \<or> validatePointsToEvaluate table X True \<noteq> Inr ()"
  shows "differentiateByInterpolation5 table X = Inl TabularDataError"
proof (cases "differentiateByInterpolation5 table X")
  case (Inl e)
  with differentiateByInterpolation5_Inl [OF Inl] show ?thesis by simp
next
  case (Inr r)
  with differentiateByInterpolation5_Inr [OF Inr] assms show ?thesis by simp
qed

lemma out_of_range_rejected:
  assumes "tab_x table \<noteq> []"
    and "\<exists>v\<in>set X. js_lt v (tab_x table ! 0)
            \<or> js_lt (tab_x table ! (length (tab_x table) - 1)) v"
  shows "validatePointsToEvaluate table X True \<noteq> Inr ()"
proof -
  have "js_nth (tab_x table) 0 = tab_x table ! 0"
    "js_nth (tab_x table) (length (tab_x table) - 1) = tab_x table ! (length (tab_x table) - 1)"
    using assms(1) by (simp_all add: js_nth_def)
  with assms(2) show ?thesis
    unfolding validatePointsToEvaluate_range_iff by auto
qed

text \<open>
  Claim C9. For a valid table and a non-empty list of finite points, one of them outside
  \<open>[min(x), max(x)]\<close>, \<open>interpolateLagrange\<close> and \<open>interpolateNewton\<close> return normally
  with a value for every point, while \<open>differentiateByInterpolation5\<close> and
  \<open>differentiateByApproximation5\<close> fail with a data error.
\<close>

theorem extrapolation_policy:
  assumes "validateTabular table 2 = Inr ()" and "X \<noteq> []" and "list_all isFinite X"
    and "\<exists>v\<in>set X. js_lt v (tab_x table ! 0)
            \<or> js_lt (tab_x table ! (length (tab_x table) - 1)) v"
  shows "interpolateLagrange table X
           = Inr \<lparr>ir_X = X,
                  ir_F = map (\<lambda>Xk. interpolateLagrangeAtPoint (map toReal (tab_x table))
                                       (map toReal (tab_f table)) (toReal Xk)) X\<rparr>
       \<and> interpolateNewton table X
           = Inr \<lparr>ir_X = X,
                  ir_F = map (\<lambda>Xk. evaluateNewtonAtPoint (map toReal (tab_x table))
                                       (buildNewtonCoefficients (map toReal (tab_x table))
                                          (map toReal (tab_f table)))
                                       (toReal Xk)) X\<rparr>
       \<and> differentiateByInterpolation5 table X = Inl TabularDataError
       \<and> differentiateByApproximation5 table X = Inl TabularDataError"
proof -
  have p: "validatePointsToEvaluate table X False = Inr ()"
    using assms(2,3) by (simp add: validatePointsToEvaluate_free_iff)
  have ne: "tab_x table \<noteq> []"
    using assms(1) by (auto simp: validateTabular_Inr_iff)
  have r: "validatePointsToEvaluate table X True \<noteq> Inr ()"
    by (rule out_of_range_rejected [OF ne assms(4)])
  have L: "interpolateLagrange table X
           = Inr \<lparr>ir_X = X,
                  ir_F = map (\<lambda>Xk. interpolateLagrangeAtPoint (map toReal (tab_x table))
                                       (map toReal (tab_f table)) (toReal Xk)) X\<rparr>"
    by (rule interpolateLagrange_valid [OF assms(1,2,3)])
  have N: "interpolateNewton table X
           = Inr \<lparr>ir_X = X,
                  ir_F = map (\<lambda>Xk. evaluateNewtonAtPoint (map toReal (tab_x table))
                                       (buildNewtonCoefficients (map toReal (tab_x table))
                                          (map toReal (tab_f table)))
                                       (toReal Xk)) X\<rparr>"
    by (simp add: interpolateNewton_def assms(1) p Let_def)
  have D1: "differentiateByInterpolation5 table X = Inl TabularDataError"
    by (rule differentiateByInterpolation5_invalid) (use r in simp)
  have D2: "differentiateByApproximation5 table X = Inl TabularDataError"
    by (rule differentiateByApproximation5_invalid) (use r in simp)
  show ?thesis
    by (intro conjI L N D1 D2)
qed

theorem extrapolation_policy_witness:
  "validateTabular \<lparr>tab_x = [Fin 0, Fin 1, Fin 2, Fin 3, Fin 4],
                     tab_f = [Fin 0, Fin 1, Fin 4, Fin 9, Fin 16]\<rparr> 2 = Inr ()
   \<and> [Fin 5] \<noteq> [] \<and> list_all isFinite [Fin 5]
   \<and> (\<exists>v\<in>set [Fin 5].
         js_lt v (tab_x \<lparr>tab_x = [Fin 0, Fin 1, Fin 2, Fin 3, Fin 4],
                          tab_f = [Fin 0, Fin 1, Fin 4, Fin 9, Fin 16]\<rparr> ! 0)
         \<or> js_lt (tab_x \<lparr>tab_x = [Fin 0, Fin 1, Fin 2, Fin 3, Fin 4],
                          tab_f = [Fin 0, Fin 1, Fin 4, Fin 9, Fin 16]\<rparr>
                  ! (length (tab_x \<lparr>tab_x = [Fin 0, Fin 1, Fin 2, Fin 3, Fin 4],
                          tab_f = [Fin 0, Fin 1, Fin 4, Fin 9, Fin 16]\<rparr>) - 1)) v)
   \<and> interpolateLagrange \<lparr>tab_x = [Fin 0, Fin 1, Fin 2, Fin 3, Fin 4],
                     tab_f = [Fin 0, Fin 1, Fin 4, Fin 9, Fin 16]\<rparr> [Fin 5]
       = Inr \<lparr>ir_X = [Fin 5], ir_F = [25]\<rparr>
   \<and> interpolateNewton \<lparr>tab_x = [Fin 0, Fin 1, Fin 2, Fin 3, Fin 4],
                     tab_f = [Fin 0, Fin 1, Fin 4, Fin 9, Fin 16]\<rparr> [Fin 5]
       = Inr \<lparr>ir_X = [Fin 5], ir_F = [25]\<rparr>
   \<and> differentiateByInterpolation5 \<lparr>tab_x = [Fin 0, Fin 1, Fin 2, Fin 3, Fin 4],
                     tab_f = [Fin 0, Fin 1, Fin 4, Fin 9, Fin 16]\<rparr> [Fin 5]
       = Inl TabularDataError
   \<and> differentiateByApproximation5 \<lparr>tab_x = [Fin 0, Fin 1, Fin 2, Fin 3, Fin 4],
                     tab_f = [Fin 0, Fin 1, Fin 4, Fin 9, Fin 16]\<rparr> [Fin 5]
       = Inl TabularDataError"
proof -
  let ?T = "\<lparr>tab_x = [Fin 0, Fin 1, Fin 2, Fin 3, Fin 4],
            tab_f = [Fin 0, Fin 1, Fin 4, Fin 9, Fin 16]\<rparr>"
  have h1: "validateTabular ?T 2 = Inr ()"
    by (simp add: validateTabular_def upt_rec)
  have h2: "[Fin 5] \<noteq> []" by simp
  have h3: "list_all isFinite [Fin 5]" by simp
  have h4: "\<exists>v\<in>set [Fin 5]. js_lt v (tab_x ?T ! 0)
       \<or> js_lt (tab_x ?T ! (length (tab_x ?T) - 1)) v"
    by simp
  have vL: "interpolateLagrangeAtPoint [0, 1, 2, 3, 4] [0, 1, 4, 9, 16] 5 = 25"
    by code_simp
  have vN: "evaluateNewtonAtPoint [0, 1, 2, 3, 4]
      (buildNewtonCoefficients [0, 1, 2, 3, 4] [0, 1, 4, 9, 16]) 5 = 25"
    by code_simp
  note t = extrapolation_policy [OF h1 h2 h3 h4]
  have L: "interpolateLagrange ?T [Fin 5] = Inr \<lparr>ir_X = [Fin 5], ir_F = [25]\<rparr>"
    using t [THEN conjunct1] vL by simp
  have N: "interpolateNewton ?T [Fin 5] = Inr \<lparr>ir_X = [Fin 5], ir_F = [25]\<rparr>"
    using t [THEN conjunct2, THEN conjunct1] vN by simp
  show ?thesis
    by (intro conjI h1 h2 h3 h4 L N t [THEN conjunct2, THEN conjunct2, THEN conjunct1]
        t [THEN conjunct2, THEN conjunct2, THEN conjunct2])
qed

section \<open>Comparison of the interpolation methods\<close>










end
